theory Spec2Isabelle
  imports Main "HOL-Library.Word" "HOL-Library.List_Lexorder"
begin

unbundle bit_operations_syntax

section \<open>The datum value of rdb_protocol/datum.cc\<close>

text \<open>
  A byte is an \<open>unsigned char\<close>; \<open>std::string\<close> and \<open>datum_string_t\<close> are byte
  lists.  \<open>str\<close> reads a C string literal as its bytes.
\<close>

type_synonym byte = "8 word"

definition str :: "string \<Rightarrow> byte list" where
  "str s = map of_char s"

text \<open>
  \<open>datum_t::type_t\<close>, the logical variant returned by \<open>get_type()\<close>.  The header that
  gives the enumerators their numeric values is not part of the sources, so the
  order used by \<open>derived_cmp(get_type(), rhs.get_type())\<close> is a parameter
  (\<open>type_rank\<close> below).
\<close>

datatype type_t =
  UNINITIALIZED | R_ARRAY | R_BINARY | R_BOOL | R_NULL | R_NUM | R_OBJECT | R_STR

text \<open>
  The tagged union \<open>data_wrapper_t\<close>.  A number is carried as the 64 bits of its
  IEEE-754 binary64 representation (what \<open>num_to_str_key\<close> reads through its union);
  the buffer-backed forms \<open>BUF_R_ARRAY\<close> and \<open>BUF_R_OBJECT\<close> are read through the same
  accessors as the materialised ones and are represented by them.
\<close>

datatype datum =
    DUninitialized
  | DNull
  | DBool bool
  | DNum "64 word"
  | DStr "byte list"
  | DBinary "byte list"
  | DArray "datum list"
  | DObject "(byte list \<times> datum) list"

text \<open>
  Error kinds of \<open>base_exc_t\<close> (section 7 of the specification), and the ways a call
  can end without a value: a ReQL exception, a fatal stop (\<open>guarantee\<close>,
  \<open>r_sanity_check\<close>, \<open>unreachable\<close>, an exception escaping a \<open>THROWS_NOTHING\<close>
  function), or a read outside a buffer.
\<close>

datatype base_exc_t = GENERIC | NON_EXISTENCE | TOO_LARGE

datatype failure = Exc base_exc_t | Fatal | Undefined

datatype reql_version_t = v1_13 | v1_14 | v1_16_is_latest

datatype throw_bool_t = THROW | NOTHROW

record configured_limits_t =
  array_size_limit :: nat

text \<open>\<open>configured_limits_t::unlimited\<close>: the largest \<open>size_t\<close>.\<close>

definition unlimited :: configured_limits_t where
  "unlimited = \<lparr>array_size_limit = 2 ^ 64 - 1\<rparr>"

text \<open>
  The trees the bridges read: a \<open>cJSON\<close> node (its \<open>type\<close> with \<open>valuedouble\<close>,
  \<open>valuestring\<close>, the items of an array, the named items of an object) and a
  protobuf \<open>Datum\<close> message.
\<close>

datatype cJSON =
    cJSON_False
  | cJSON_True
  | cJSON_NULL
  | cJSON_Number "64 word"
  | cJSON_String "byte list"
  | cJSON_Array "cJSON list"
  | cJSON_Object "(byte list \<times> cJSON) list"

datatype Datum =
    Datum_R_NULL
  | Datum_R_BOOL bool
  | Datum_R_NUM "64 word"
  | Datum_R_STR "byte list"
  | Datum_R_JSON "byte list"
  | Datum_R_ARRAY "Datum list"
  | Datum_R_OBJECT "(byte list \<times> Datum) list"

text \<open>
  Declarations that the two source files use and do not contain: the key size
  constants, the numeric order of \<open>type_t\<close>, the \<open>printf\<close> rendering of a double,
  the UTF-8 validator, the JSON parser and the helpers of the TIME, GEOMETRY,
  LITERAL and BINARY pseudotypes.  Every function below that depends on one of them takes this record.
\<close>

record externals =
  MAX_KEY_SIZE :: nat
  MAX_PRIMARY_KEY_SIZE :: nat
  type_rank :: "type_t \<Rightarrow> nat"
  reconstructable_double :: "64 word \<Rightarrow> byte list"
  utf8_is_valid :: "byte list \<Rightarrow> bool"
  cJSON_Parse :: "byte list \<Rightarrow> cJSON option"
  time_to_str_key :: "datum \<Rightarrow> byte list \<Rightarrow> failure + byte list"
  time_cmp :: "reql_version_t \<Rightarrow> datum \<Rightarrow> datum \<Rightarrow> failure + int"
  sanitize_time :: "datum \<Rightarrow> failure + datum"
  sanitize_geometry :: "datum \<Rightarrow> failure + datum"
  rcheck_literal_valid :: "datum \<Rightarrow> failure + unit"
  decode_base64_ptype :: "(byte list \<times> datum) list \<Rightarrow> failure + byte list"

subsection \<open>Type queries and scalar accessors\<close>

fun get_type :: "datum \<Rightarrow> type_t" where
  "get_type DUninitialized = UNINITIALIZED"
| "get_type (DArray _) = R_ARRAY"
| "get_type (DBinary _) = R_BINARY"
| "get_type (DBool _) = R_BOOL"
| "get_type DNull = R_NULL"
| "get_type (DNum _) = R_NUM"
| "get_type (DObject _) = R_OBJECT"
| "get_type (DStr _) = R_STR"

definition has :: "datum \<Rightarrow> bool" where
  "has d = (get_type d \<noteq> UNINITIALIZED)"

text \<open>The union member \<open>data.r_bool\<close>; only read when the variant is \<open>R_BOOL\<close>.\<close>

fun r_bool :: "datum \<Rightarrow> bool" where
  "r_bool (DBool b) = b"
| "r_bool _ = False"

text \<open>
  The union members \<open>data.r_num\<close> and \<open>data.r_str\<close>; only read when the variant is
  \<open>R_NUM\<close>, and \<open>R_STR\<close> or \<open>R_BINARY\<close>.
\<close>

fun r_num :: "datum \<Rightarrow> 64 word" where
  "r_num (DNum u) = u"
| "r_num _ = 0"

fun r_str :: "datum \<Rightarrow> byte list" where
  "r_str (DStr s) = s"
| "r_str (DBinary s) = s"
| "r_str _ = []"

definition as_bool :: "datum \<Rightarrow> failure + bool" where
  "as_bool d = (if get_type d = R_BOOL then Inr (r_bool d) else Inr (get_type d \<noteq> R_NULL))"

subsection \<open>Array construction and the array builder\<close>

text \<open>
  Modelled from the spec: \<open>rcheck_array_size\<close> and \<open>rcheck_array_size_datum\<close> are
  declared outside the two source files.  They raise an error of the kind they are
  passed when the vector is longer than \<open>limits.array_size_limit()\<close> (section 4.1:
  the check fails if \<open>elems.len > limits.array_size_limit\<close>).
\<close>

definition rcheck_array_size ::
  "'a list \<Rightarrow> configured_limits_t \<Rightarrow> base_exc_t \<Rightarrow> failure + unit" where
  "rcheck_array_size v lim kind =
     (if length v \<le> array_size_limit lim then Inr () else Inl (Exc kind))"

text \<open>\<open>datum_t(std::vector<datum_t> &&, const configured_limits_t &)\<close>.\<close>

definition datum_array :: "datum list \<Rightarrow> configured_limits_t \<Rightarrow> failure + datum" where
  "datum_array v lim =
     (case rcheck_array_size v lim GENERIC of
        Inl e \<Rightarrow> Inl e
      | Inr _ \<Rightarrow> Inr (DArray v))"

text \<open>\<open>datum_t(std::vector<datum_t> &&, no_array_size_limit_check_t)\<close>.\<close>

definition datum_array_unchecked :: "datum list \<Rightarrow> datum" where
  "datum_array_unchecked v = DArray v"

record datum_array_builder_t =
  vector :: "datum list"
  limits :: configured_limits_t

definition array_builder :: "configured_limits_t \<Rightarrow> datum_array_builder_t" where
  "array_builder l = \<lparr>vector = [], limits = l\<rparr>"

definition array_builder_add ::
  "datum_array_builder_t \<Rightarrow> datum \<Rightarrow> failure + datum_array_builder_t" where
  "array_builder_add b val =
     (let b' = b\<lparr>vector := vector b @ [val]\<rparr> in
      case rcheck_array_size (vector b') (limits b') GENERIC of
        Inl e \<Rightarrow> Inl e
      | Inr _ \<Rightarrow> Inr b')"

definition array_builder_change ::
  "datum_array_builder_t \<Rightarrow> nat \<Rightarrow> datum \<Rightarrow> failure + datum_array_builder_t" where
  "array_builder_change b index val =
     (if index < length (vector b)
      then Inr (b\<lparr>vector := (vector b)[index := val]\<rparr>)
      else Inl (Exc NON_EXISTENCE))"

definition array_builder_insert ::
  "datum_array_builder_t \<Rightarrow> reql_version_t \<Rightarrow> nat \<Rightarrow> datum \<Rightarrow> failure + datum_array_builder_t" where
  "array_builder_insert b reql_version index val =
     (if index \<le> length (vector b)
      then
        (let b' = b\<lparr>vector := take index (vector b) @ [val] @ drop index (vector b)\<rparr> in
         case reql_version of
           v1_13 \<Rightarrow> Inr b'
         | _ \<Rightarrow>
             (case rcheck_array_size (vector b') (limits b') GENERIC of
                Inl e \<Rightarrow> Inl e
              | Inr _ \<Rightarrow> Inr b'))
      else Inl (Exc NON_EXISTENCE))"

definition array_builder_splice ::
  "datum_array_builder_t \<Rightarrow> reql_version_t \<Rightarrow> nat \<Rightarrow> datum \<Rightarrow> failure + datum_array_builder_t" where
  "array_builder_splice b reql_version index values =
     (if index \<le> length (vector b)
      then
        (case values of
           DArray arr \<Rightarrow>
             (let b' = b\<lparr>vector := take index (vector b) @ arr @ drop index (vector b)\<rparr> in
              case reql_version of
                v1_13 \<Rightarrow> Inr b'
              | _ \<Rightarrow>
                  (case rcheck_array_size (vector b') (limits b') GENERIC of
                     Inl e \<Rightarrow> Inl e
                   | Inr _ \<Rightarrow> Inr b'))
         | _ \<Rightarrow> Inl (Exc GENERIC))
      else Inl (Exc NON_EXISTENCE))"

definition array_builder_to_datum :: "datum_array_builder_t \<Rightarrow> datum" where
  "array_builder_to_datum b = datum_array_unchecked (vector b)"

subsection \<open>String comparison\<close>

text \<open>
  Modelled from the spec: \<open>datum_string_t::compare\<close> is defined outside the two
  source files; strings and binaries compare by bytewise \<open>memcmp\<close>, a proper prefix
  being smaller (section 4.4).  The result is normalised to its sign.  The same
  function reads \<open>std::string\<close> comparison (\<open>==\<close>, \<open><\<close>) and the \<open>memcmp\<close> order of
  keys.
\<close>

fun byte_cmp :: "byte list \<Rightarrow> byte list \<Rightarrow> int" where
  "byte_cmp [] [] = 0"
| "byte_cmp [] (y # ys) = - 1"
| "byte_cmp (x # xs) [] = 1"
| "byte_cmp (x # xs) (y # ys) =
     (if x < y then - 1 else if y < x then 1 else byte_cmp xs ys)"

text \<open>\<open>derived_cmp\<close> on \<open>std::string\<close>, \<open>bool\<close> and the rank of a \<open>type_t\<close>.\<close>

definition derived_cmp_str :: "byte list \<Rightarrow> byte list \<Rightarrow> int" where
  "derived_cmp_str a b = (if a = b then 0 else if byte_cmp a b < 0 then - 1 else 1)"

definition derived_cmp_bool :: "bool \<Rightarrow> bool \<Rightarrow> int" where
  "derived_cmp_bool a b = (if a = b then 0 else if \<not> a \<and> b then - 1 else 1)"

definition derived_cmp_nat :: "nat \<Rightarrow> nat \<Rightarrow> int" where
  "derived_cmp_nat a b = (if a = b then 0 else if a < b then - 1 else 1)"

text \<open>
  \<open>derived_cmp\<close> on \<open>double\<close>.  Every number in a datum is finite, and on finite
  binary64 values \<open>==\<close> and \<open><\<close> are read off the bit pattern: the low 63 bits
  order the magnitudes, bit 63 is the sign, and the two zeros are equal.
\<close>

definition double_order :: "64 word \<Rightarrow> int" where
  "double_order u = (if bit u 63 then - uint (take_bit 63 u) else uint (take_bit 63 u))"

definition derived_cmp_double :: "64 word \<Rightarrow> 64 word \<Rightarrow> int" where
  "derived_cmp_double a b =
     (if double_order a = double_order b then 0
      else if double_order a < double_order b then - 1 else 1)"

text \<open>\<open>risfinite\<close>: the exponent field is not all ones.\<close>

definition risfinite :: "64 word \<Rightarrow> bool" where
  "risfinite u = (take_bit 11 (drop_bit 52 u) \<noteq> (2047 :: 64 word))"

subsection \<open>Objects: field lookup and pseudotypes\<close>

definition reql_type_string :: "byte list" where
  "reql_type_string = str ''$reql_type$''"

text \<open>
  Modelled from the spec: the pseudotype names and the literal's value key are
  declared in the \<open>pseudo_*.hpp\<close> headers, which are not part of the sources
  (section 4.2: TIME, GEOMETRY, LITERAL, BINARY; a literal has the single field
  \<open>value\<close>).
\<close>

definition time_string :: "byte list" where "time_string = str ''TIME''"
definition geometry_string :: "byte list" where "geometry_string = str ''GEOMETRY''"
definition literal_string :: "byte list" where "literal_string = str ''LITERAL''"
definition binary_string :: "byte list" where "binary_string = str ''BINARY''"
definition value_key :: "byte list" where "value_key = str ''value''"

text \<open>
  The binary search of \<open>get_field\<close> over the pairs of an object, between
  \<open>range_beg\<close> and \<open>range_end\<close>.
\<close>

function get_field_search ::
  "(byte list \<times> datum) list \<Rightarrow> byte list \<Rightarrow> nat \<Rightarrow> nat \<Rightarrow> failure + datum option" where
  "get_field_search ps key range_beg range_end =
     (if range_beg < range_end then
        (let center = range_beg + (range_end - range_beg) div 2 in
         if center < length ps then
           (let cmp = byte_cmp key (fst (ps ! center)) in
            if cmp = 0 then Inr (Some (snd (ps ! center)))
            else if cmp < 0 then get_field_search ps key range_beg center
            else get_field_search ps key (center + 1) range_end)
         else Inl Undefined)
      else Inr None)"
  by pat_completeness auto
termination
  apply (relation "measure (\<lambda>(ps, key, range_beg, range_end). range_end - range_beg)")
    apply auto
  apply linarith
  done

definition get_field :: "datum \<Rightarrow> byte list \<Rightarrow> throw_bool_t \<Rightarrow> failure + datum" where
  "get_field d key throw_bool =
     (case d of
        DObject ps \<Rightarrow>
          (case get_field_search ps key 0 (length ps) of
             Inl e \<Rightarrow> Inl e
           | Inr (Some v) \<Rightarrow> Inr v
           | Inr None \<Rightarrow>
               (if throw_bool = THROW then Inl (Exc NON_EXISTENCE) else Inr DUninitialized))
      | _ \<Rightarrow> Inl (Exc GENERIC))"

definition is_ptype :: "datum \<Rightarrow> bool" where
  "is_ptype d =
     (get_type d = R_BINARY \<or>
      (get_type d = R_OBJECT \<and>
       (case get_field d reql_type_string NOTHROW of Inr v \<Rightarrow> has v | Inl _ \<Rightarrow> False)))"

text \<open>
  \<open>get_reql_type\<close> ends in \<open>maybe_reql_type.as_str()\<close>, reached only after the
  \<open>rcheck\<close> that the field is a string: there \<open>check_type\<close> passes and \<open>as_str\<close>
  returns \<open>data.r_str\<close>.  The \<open>rcheck\<close> formats its message from the name of an
  initialised datum, which is formed or raises GENERIC itself.
\<close>

definition get_reql_type :: "datum \<Rightarrow> failure + byte list" where
  "get_reql_type d =
     (if \<not> is_ptype d then Inl Fatal
      else if get_type d = R_BINARY then Inr (str ''BINARY'')
      else
        (case get_field d reql_type_string NOTHROW of
           Inl e \<Rightarrow> Inl e
         | Inr maybe_reql_type \<Rightarrow>
             if \<not> has maybe_reql_type then Inl Fatal
             else if get_type maybe_reql_type \<noteq> R_STR then Inl (Exc GENERIC)
             else Inr (r_str maybe_reql_type)))"

text \<open>\<open>is_ptype(const std::string &reql_type)\<close>.\<close>

definition is_ptype_of :: "datum \<Rightarrow> byte list \<Rightarrow> failure + bool" where
  "is_ptype_of d reql_type =
     (if reql_type = [] then Inr (is_ptype d)
      else if \<not> is_ptype d then Inr False
      else (case get_reql_type d of Inl e \<Rightarrow> Inl e | Inr t \<Rightarrow> Inr (t = reql_type)))"

definition raw_type_name :: "type_t \<Rightarrow> failure + byte list" where
  "raw_type_name t =
     (case t of
        R_NULL \<Rightarrow> Inr (str ''NULL'')
      | R_BINARY \<Rightarrow> Inr (str ''PTYPE<'' @ binary_string @ str ''>'')
      | R_BOOL \<Rightarrow> Inr (str ''BOOL'')
      | R_NUM \<Rightarrow> Inr (str ''NUMBER'')
      | R_STR \<Rightarrow> Inr (str ''STRING'')
      | R_ARRAY \<Rightarrow> Inr (str ''ARRAY'')
      | R_OBJECT \<Rightarrow> Inr (str ''OBJECT'')
      | UNINITIALIZED \<Rightarrow> Inl Fatal)"

definition get_type_name :: "datum \<Rightarrow> failure + byte list" where
  "get_type_name d =
     (if is_ptype d
      then (case get_reql_type d of
              Inl e \<Rightarrow> Inl e
            | Inr t \<Rightarrow> Inr (str ''PTYPE<'' @ t @ str ''>''))
      else raw_type_name (get_type d))"

text \<open>
  \<open>check_type\<close> raises through \<open>rcheck_typed_target\<close>; the accessors' type error is
  of kind GENERIC (section 4.1 of the specification).  On a mismatch the message is
  formatted first, from \<open>raw_type_name(desired)\<close> and \<open>get_type_name()\<close>: a datum
  whose name cannot be formed (an uninitialised one) fails there, before anything is
  raised.
\<close>

definition check_type :: "datum \<Rightarrow> type_t \<Rightarrow> failure + unit" where
  "check_type d desired =
     (if get_type d = desired then Inr ()
      else
        (case raw_type_name desired of
           Inl e \<Rightarrow> Inl e
         | Inr _ \<Rightarrow>
             (case get_type_name d of
                Inl e \<Rightarrow> Inl e
              | Inr _ \<Rightarrow> Inl (Exc GENERIC))))"

text \<open>
  \<open>type_error(msg)\<close> raises GENERIC.  Every caller formats \<open>msg\<close> from
  \<open>get_type_name()\<close>; the argument is the outcome of that formatting, which comes
  first.
\<close>

definition type_error :: "failure + byte list \<Rightarrow> failure + 'a" where
  "type_error msg = (case msg of Inl e \<Rightarrow> Inl e | Inr _ \<Rightarrow> Inl (Exc GENERIC))"

definition as_num :: "datum \<Rightarrow> failure + 64 word" where
  "as_num d = (case check_type d R_NUM of Inl e \<Rightarrow> Inl e | Inr _ \<Rightarrow> Inr (r_num d))"

definition as_binary :: "datum \<Rightarrow> failure + byte list" where
  "as_binary d = (case check_type d R_BINARY of Inl e \<Rightarrow> Inl e | Inr _ \<Rightarrow> Inr (r_str d))"

definition as_str :: "datum \<Rightarrow> failure + byte list" where
  "as_str d = (case check_type d R_STR of Inl e \<Rightarrow> Inl e | Inr _ \<Rightarrow> Inr (r_str d))"

definition arr_size :: "datum \<Rightarrow> failure + nat" where
  "arr_size d =
     (case check_type d R_ARRAY of
        Inl e \<Rightarrow> Inl e
      | Inr _ \<Rightarrow> (case d of DArray xs \<Rightarrow> Inr (length xs) | _ \<Rightarrow> Inl Fatal))"

definition obj_size :: "datum \<Rightarrow> failure + nat" where
  "obj_size d =
     (case check_type d R_OBJECT of
        Inl e \<Rightarrow> Inl e
      | Inr _ \<Rightarrow> (case d of DObject ps \<Rightarrow> Inr (length ps) | _ \<Rightarrow> Inl Fatal))"

definition pseudo_compares_as_obj :: "datum \<Rightarrow> failure + bool" where
  "pseudo_compares_as_obj d =
     (if \<not> is_ptype d then Inl Fatal
      else (case get_reql_type d of
              Inl e \<Rightarrow> Inl e
            | Inr t \<Rightarrow> Inr (t = geometry_string)))"

subsection \<open>Key encoding\<close>

text \<open>
  Each \<open>*_to_str_key\<close> appends to \<open>str_out\<close>; the model takes the string built so
  far and returns the longer one.  \<open>size_t\<close> differences wrap at 64 bits.
\<close>

definition size_t_sub :: "nat \<Rightarrow> nat \<Rightarrow> nat" where
  "size_t_sub a b = unat ((of_nat a :: 64 word) - of_nat b)"

definition tag_size :: nat where
  "tag_size = 8"

text \<open>\<open>strprintf("%.*" PRIx64, 16, u)\<close>: sixteen lower-case hexadecimal digits.\<close>

definition hex_digit :: "nat \<Rightarrow> byte" where
  "hex_digit d = (if d < 10 then of_nat (48 + d) else of_nat (87 + d))"

fun hex_digits :: "nat \<Rightarrow> nat \<Rightarrow> byte list" where
  "hex_digits 0 n = []"
| "hex_digits (Suc k) n = hex_digits k (n div 16) @ [hex_digit (n mod 16)]"

definition hex16 :: "64 word \<Rightarrow> byte list" where
  "hex16 u = hex_digits 16 (unat u)"

definition num_to_str_key :: "externals \<Rightarrow> datum \<Rightarrow> byte list \<Rightarrow> failure + byte list" where
  "num_to_str_key E d str_out =
     (case d of
        DNum u \<Rightarrow>
          (let packed = (if u AND push_bit 63 1 \<noteq> 0 then NOT u else u XOR push_bit 63 1) in
           Inr (str_out @ str ''N'' @ hex16 packed @ str ''#'' @ reconstructable_double E u))
      | _ \<Rightarrow> Inl Fatal)"

fun escape_binary :: "byte list \<Rightarrow> byte list" where
  "escape_binary [] = []"
| "escape_binary (c # cs) =
     (if c = 0 then [1, 1] @ escape_binary cs
      else if c = 1 then [1, 2] @ escape_binary cs
      else c # escape_binary cs)"

definition binary_to_str_key :: "externals \<Rightarrow> datum \<Rightarrow> byte list \<Rightarrow> failure + byte list" where
  "binary_to_str_key E d str_out =
     (case as_binary d of
        Inl e \<Rightarrow> Inl e
      | Inr key \<Rightarrow>
          (let out1 = str_out @ str ''PBINARY:'';
               to_append = min (size_t_sub (MAX_KEY_SIZE E) (length out1)) (length key)
           in Inr (out1 @ escape_binary (take to_append key))))"

definition str_to_str_key :: "externals \<Rightarrow> datum \<Rightarrow> byte list \<Rightarrow> failure + byte list" where
  "str_to_str_key E d str_out =
     (case d of
        DStr s \<Rightarrow>
          (let out1 = str_out @ str ''S'';
               to_append = min (size_t_sub (MAX_KEY_SIZE E) (length out1)) (length s)
           in Inr (out1 @ take to_append s))
      | _ \<Rightarrow> Inl Fatal)"

definition bool_to_str_key :: "datum \<Rightarrow> byte list \<Rightarrow> failure + byte list" where
  "bool_to_str_key d str_out =
     (case d of
        DBool b \<Rightarrow> Inr (str_out @ str ''B'' @ (if b then str ''t'' else str ''f''))
      | _ \<Rightarrow> Inl Fatal)"

definition pt_to_str_key :: "externals \<Rightarrow> datum \<Rightarrow> byte list \<Rightarrow> failure + byte list" where
  "pt_to_str_key E d str_out =
     (if \<not> is_ptype d then Inl Fatal
      else
        (case get_reql_type d of
           Inl e \<Rightarrow> Inl e
         | Inr t \<Rightarrow>
             if t = time_string then time_to_str_key E d str_out
             else Inl (Exc GENERIC)))"

fun array_to_str_key :: "externals \<Rightarrow> datum \<Rightarrow> byte list \<Rightarrow> failure + byte list"
  and array_items_to_str_key :: "externals \<Rightarrow> datum list \<Rightarrow> byte list \<Rightarrow> failure + byte list"
where
  "array_to_str_key E d str_out =
     (case d of
        DArray xs \<Rightarrow> array_items_to_str_key E xs (str_out @ str ''A'')
      | _ \<Rightarrow> Inl Fatal)"
| "array_items_to_str_key E [] str_out = Inr str_out"
| "array_items_to_str_key E (item # rest) str_out =
     (if length str_out < MAX_KEY_SIZE E then
        (case
           (case item of
              DUninitialized \<Rightarrow> Inl Fatal
            | DNum _ \<Rightarrow> num_to_str_key E item str_out
            | DStr _ \<Rightarrow> str_to_str_key E item str_out
            | DBinary _ \<Rightarrow> binary_to_str_key E item str_out
            | DBool _ \<Rightarrow> bool_to_str_key item str_out
            | DArray _ \<Rightarrow> array_to_str_key E item str_out
            | DObject _ \<Rightarrow>
                (if is_ptype item then pt_to_str_key E item str_out
                 else type_error (get_type_name item))
            | DNull \<Rightarrow> type_error (get_type_name item))
         of
           Inl e \<Rightarrow> Inl e
         | Inr out1 \<Rightarrow> array_items_to_str_key E rest (out1 @ [0]))
      else Inr str_out)"

declare array_to_str_key.simps(1) [simp del]

definition print_primary :: "externals \<Rightarrow> datum \<Rightarrow> failure + byte list" where
  "print_primary E d =
     (case
        (case d of
           DNum _ \<Rightarrow> num_to_str_key E d []
         | DStr _ \<Rightarrow> str_to_str_key E d []
         | DBinary _ \<Rightarrow> binary_to_str_key E d []
         | DBool _ \<Rightarrow> bool_to_str_key d []
         | DArray _ \<Rightarrow> array_to_str_key E d []
         | DObject _ \<Rightarrow>
             (if is_ptype d then pt_to_str_key E d [] else type_error (get_type_name d))
         | DNull \<Rightarrow> type_error (get_type_name d)
         | DUninitialized \<Rightarrow> Inl Fatal)
      of
        Inl e \<Rightarrow> Inl e
      | Inr s \<Rightarrow> if length s > MAX_PRIMARY_KEY_SIZE E then Inl (Exc GENERIC) else Inr s)"

definition mangle_secondary ::
  "externals \<Rightarrow> byte list \<Rightarrow> byte list \<Rightarrow> byte list \<Rightarrow> failure + byte list" where
  "mangle_secondary E secondary primary tag =
     (if \<not> length secondary < 255 then Inl Fatal
      else if \<not> length secondary + length primary < 255 then Inl Fatal
      else
        (let pk_offset = (of_nat (length secondary) :: byte);
             tag_offset = (of_nat (length primary) :: byte) + pk_offset;
             res = secondary @ primary @ tag @ [pk_offset] @ [tag_offset]
         in if length res \<le> MAX_KEY_SIZE E then Inr res else Inl Fatal))"

text \<open>The eight bytes of a \<open>uint64_t\<close> on a little-endian host.\<close>

definition encode_tag_num :: "64 word \<Rightarrow> byte list" where
  "encode_tag_num tag_num = map (\<lambda>i. ucast (drop_bit (8 * i) tag_num)) [0..<tag_size]"

definition trunc_size :: "externals \<Rightarrow> nat \<Rightarrow> nat" where
  "trunc_size E primary_key_size =
     unat ((of_nat (MAX_KEY_SIZE E) :: 64 word) - of_nat primary_key_size - of_nat tag_size - 2)"

definition max_trunc_size :: "externals \<Rightarrow> nat" where
  "max_trunc_size E = trunc_size E (MAX_PRIMARY_KEY_SIZE E)"

text \<open>
  A \<open>store_key_t\<close> is read through \<open>key_to_unescaped_str\<close> only; the primary key is
  given as those bytes.
\<close>

definition compose_secondary ::
  "externals \<Rightarrow> byte list \<Rightarrow> byte list \<Rightarrow> 64 word option \<Rightarrow> failure + byte list" where
  "compose_secondary E secondary_key primary_key_string tag_num =
     (if length primary_key_string > MAX_PRIMARY_KEY_SIZE E then Inl (Exc GENERIC)
      else
        (let tag_string = (case tag_num of Some t \<Rightarrow> encode_tag_num t | None \<Rightarrow> []);
             truncated_secondary_key =
               take (trunc_size E (length primary_key_string)) secondary_key
         in mangle_secondary E truncated_secondary_key primary_key_string tag_string))"

definition print_secondary ::
  "externals \<Rightarrow> reql_version_t \<Rightarrow> datum \<Rightarrow> byte list \<Rightarrow> 64 word option \<Rightarrow> failure + byte list" where
  "print_secondary E reql_version d primary_key tag_num =
     (case
        (if get_type d = R_NUM then num_to_str_key E d []
         else if get_type d = R_STR then str_to_str_key E d []
         else if get_type d = R_BINARY then binary_to_str_key E d []
         else if get_type d = R_BOOL then bool_to_str_key d []
         else if get_type d = R_ARRAY then array_to_str_key E d []
         else if get_type d = R_OBJECT \<and> is_ptype d then pt_to_str_key E d []
         else type_error (get_type_name d))
      of
        Inl e \<Rightarrow> Inl e
      | Inr secondary_key_string \<Rightarrow>
          compose_secondary E
            (case reql_version of
               v1_13 \<Rightarrow> secondary_key_string
             | _ \<Rightarrow> secondary_key_string @ [0])
            primary_key tag_num)"

record components_t =
  secondary :: "byte list"
  primary :: "byte list"
  tag_num :: "64 word option"

text \<open>
  \<open>std::string::substr(pos, n)\<close> throws when \<open>pos\<close> is past the end; inside
  \<open>parse_secondary\<close>, which is \<open>THROWS_NOTHING\<close>, that stops the process.
\<close>

definition substr :: "byte list \<Rightarrow> nat \<Rightarrow> nat \<Rightarrow> failure + byte list" where
  "substr s pos n = (if pos > length s then Inl Fatal else Inr (take n (drop pos s)))"

text \<open>The \<open>uint64_t\<close> read back from eight little-endian bytes.\<close>

definition decode_tag_num :: "byte list \<Rightarrow> 64 word" where
  "decode_tag_num bs = foldr (\<lambda>b acc. ucast b OR push_bit 8 acc) bs 0"

definition parse_secondary :: "byte list \<Rightarrow> failure + components_t" where
  "parse_secondary key =
     (if length key < 2 then Inl Undefined
      else
        (let start_of_tag = key ! (length key - 1);
             start_of_primary = key ! (length key - 2)
         in
           if \<not> start_of_primary < start_of_tag then Inl Fatal
           else
             (case substr key 0 (unat start_of_primary) of
                Inl e \<Rightarrow> Inl e
              | Inr sec \<Rightarrow>
                  (case substr key (unat start_of_primary)
                          (unat start_of_tag - unat start_of_primary) of
                     Inl e \<Rightarrow> Inl e
                   | Inr prim \<Rightarrow>
                       (case substr key (unat start_of_tag)
                               (size_t_sub (length key) (unat start_of_tag + 2)) of
                          Inl e \<Rightarrow> Inl e
                        | Inr tag_str \<Rightarrow>
                            if length tag_str \<noteq> 0 then
                              (if length tag_str < 8 then Inl Undefined
                               else Inr \<lparr>secondary = sec, primary = prim,
                                         tag_num = Some (decode_tag_num (take 8 tag_str))\<rparr>)
                            else Inr \<lparr>secondary = sec, primary = prim, tag_num = None\<rparr>)))))"

subsection \<open>Objects: the builder, sanitisation, literals and merge\<close>

text \<open>
  \<open>std::map<datum_string_t, datum_t>\<close>: the pairs in ascending key order, keys
  unique.  \<open>map_insert\<close> is \<open>insert\<close> (it keeps an existing entry and says whether
  it inserted), \<open>map_assign\<close> is \<open>map[key] = val\<close>, \<open>map_erase\<close> returns the number
  of entries removed.  Keys are ordered by \<open>datum_string_t::operator<\<close>, read as
  \<open>compare(...) < 0\<close>.
\<close>

type_synonym datum_map = "(byte list \<times> datum) list"

fun map_insert :: "datum_map \<Rightarrow> byte list \<Rightarrow> datum \<Rightarrow> datum_map \<times> bool" where
  "map_insert [] k v = ([(k, v)], True)"
| "map_insert ((k', v') # m) k v =
     (if byte_cmp k k' < 0 then ((k, v) # (k', v') # m, True)
      else if byte_cmp k' k < 0 then
        (case map_insert m k v of (m', inserted) \<Rightarrow> ((k', v') # m', inserted))
      else ((k', v') # m, False))"

fun map_assign :: "datum_map \<Rightarrow> byte list \<Rightarrow> datum \<Rightarrow> datum_map" where
  "map_assign [] k v = [(k, v)]"
| "map_assign ((k', v') # m) k v =
     (if byte_cmp k k' < 0 then (k, v) # (k', v') # m
      else if byte_cmp k' k < 0 then (k', v') # map_assign m k v
      else (k', v) # m)"

fun map_erase :: "datum_map \<Rightarrow> byte list \<Rightarrow> datum_map \<times> nat" where
  "map_erase [] k = ([], 0)"
| "map_erase ((k', v') # m) k =
     (if byte_cmp k k' < 0 then ((k', v') # m, 0)
      else if byte_cmp k' k < 0 then
        (case map_erase m k of (m', n) \<Rightarrow> ((k', v') # m', n))
      else (m, 1))"

fun map_find :: "datum_map \<Rightarrow> byte list \<Rightarrow> datum option" where
  "map_find [] k = None"
| "map_find ((k', v') # m) k =
     (if byte_cmp k k' < 0 then None
      else if byte_cmp k' k < 0 then map_find m k
      else Some v')"

definition check_str_validity :: "byte list \<Rightarrow> failure + unit" where
  "check_str_validity bytes = (if 0 \<in> set bytes then Inl (Exc GENERIC) else Inr ())"

text \<open>\<open>datum_t(datum_string_t)\<close>.\<close>

definition datum_string :: "byte list \<Rightarrow> failure + datum" where
  "datum_string s =
     (case check_str_validity s of Inl e \<Rightarrow> Inl e | Inr _ \<Rightarrow> Inr (DStr s))"

text \<open>\<open>datum_t(double)\<close>.\<close>

definition datum_num :: "64 word \<Rightarrow> failure + datum" where
  "datum_num n = (if risfinite n then Inr (DNum n) else Inl (Exc GENERIC))"

definition maybe_sanitize_ptype ::
  "externals \<Rightarrow> datum \<Rightarrow> byte list set \<Rightarrow> failure + datum" where
  "maybe_sanitize_ptype E d allowed_pts =
     (if is_ptype d then
        (case get_reql_type d of
           Inl e \<Rightarrow> Inl e
         | Inr s \<Rightarrow>
             if s = time_string then sanitize_time E d
             else if s = literal_string then
               (if literal_string \<in> allowed_pts then
                  (case rcheck_literal_valid E d of Inl e \<Rightarrow> Inl e | Inr _ \<Rightarrow> Inr d)
                else Inl (Exc GENERIC))
             else if s = geometry_string then sanitize_geometry E d
             else if s = binary_string then
               (case d of
                  DObject ps \<Rightarrow>
                    (case decode_base64_ptype E ps of
                       Inl e \<Rightarrow> Inl e
                     | Inr bytes \<Rightarrow> Inr (DBinary bytes))
                | _ \<Rightarrow> Inl Fatal)
             else Inl (Exc GENERIC))
      else Inr d)"

text \<open>
  \<open>datum_t(std::map<datum_string_t, datum_t> &&, const std::set<std::string> &)\<close>;
  \<open>_allowed_pts\<close>, the default allowlist, is the empty set.
\<close>

definition datum_object :: "externals \<Rightarrow> datum_map \<Rightarrow> byte list set \<Rightarrow> failure + datum" where
  "datum_object E m allowed_pts = maybe_sanitize_ptype E (DObject m) allowed_pts"

definition allowed_pts_default :: "byte list set" where
  "allowed_pts_default = {}"

text \<open>The object builder is its map.\<close>

fun insert_pairs :: "datum_map \<Rightarrow> (byte list \<times> datum) list \<Rightarrow> datum_map" where
  "insert_pairs m [] = m"
| "insert_pairs m ((k, v) # ps) = insert_pairs (fst (map_insert m k v)) ps"

definition object_builder_from :: "datum \<Rightarrow> failure + datum_map" where
  "object_builder_from copy_from =
     (case copy_from of
        DObject ps \<Rightarrow> Inr (insert_pairs [] ps)
      | _ \<Rightarrow> Inl (Exc GENERIC))"

definition object_builder_add ::
  "datum_map \<Rightarrow> byte list \<Rightarrow> datum \<Rightarrow> failure + (datum_map \<times> bool)" where
  "object_builder_add m key val =
     (case check_str_validity key of
        Inl e \<Rightarrow> Inl e
      | Inr _ \<Rightarrow>
          if \<not> has val then Inl Fatal
          else (case map_insert m key val of (m', inserted) \<Rightarrow> Inr (m', \<not> inserted)))"

definition object_builder_overwrite ::
  "datum_map \<Rightarrow> byte list \<Rightarrow> datum \<Rightarrow> failure + datum_map" where
  "object_builder_overwrite m key val =
     (case check_str_validity key of
        Inl e \<Rightarrow> Inl e
      | Inr _ \<Rightarrow> if \<not> has val then Inl Fatal else Inr (map_assign m key val))"

definition object_builder_delete_field :: "datum_map \<Rightarrow> byte list \<Rightarrow> datum_map \<times> bool" where
  "object_builder_delete_field m key =
     (case map_erase m key of (m', n) \<Rightarrow> (m', 0 \<noteq> n))"

definition object_builder_try_get :: "datum_map \<Rightarrow> byte list \<Rightarrow> datum" where
  "object_builder_try_get m key =
     (case map_find m key of None \<Rightarrow> DUninitialized | Some v \<Rightarrow> v)"

definition object_builder_to_datum :: "externals \<Rightarrow> datum_map \<Rightarrow> failure + datum" where
  "object_builder_to_datum E m = datum_object E m allowed_pts_default"

definition object_builder_to_datum_pts ::
  "externals \<Rightarrow> datum_map \<Rightarrow> byte list set \<Rightarrow> failure + datum" where
  "object_builder_to_datum_pts E m permissible_ptypes = datum_object E m permissible_ptypes"

text \<open>\<open>bool conflict = builder.add(...); r_sanity_check(!conflict);\<close>\<close>

definition add_no_conflict :: "datum_map \<Rightarrow> byte list \<Rightarrow> datum \<Rightarrow> failure + datum_map" where
  "add_no_conflict m key val =
     (case object_builder_add m key val of
        Inl e \<Rightarrow> Inl e
      | Inr (m', conflict) \<Rightarrow> if conflict then Inl Fatal else Inr m')"

fun copy_pairs :: "(byte list \<times> datum) list \<Rightarrow> datum_map \<Rightarrow> failure + datum_map" where
  "copy_pairs [] m = Inr m"
| "copy_pairs ((k, v) # ps) m =
     (case add_no_conflict m k v of Inl e \<Rightarrow> Inl e | Inr m' \<Rightarrow> copy_pairs ps m')"

fun copy_elems ::
  "datum list \<Rightarrow> datum_array_builder_t \<Rightarrow> failure + datum_array_builder_t" where
  "copy_elems [] b = Inr b"
| "copy_elems (x # xs) b =
     (case array_builder_add b x of Inl e \<Rightarrow> Inl e | Inr b' \<Rightarrow> copy_elems xs b')"

lemma get_field_search_member:
  "get_field_search ps key range_beg range_end = Inr (Some v) \<Longrightarrow> v \<in> snd ` set ps"
proof (induction ps key range_beg range_end rule: get_field_search.induct)
  case (1 ps key range_beg range_end)
  show ?case
  proof (cases "range_beg < range_end
                \<and> range_beg + (range_end - range_beg) div 2 < length ps")
    case True
    then show ?thesis
      using "1.prems" "1.IH"
      by (subst (asm) get_field_search.simps)
         (auto simp: Let_def split: if_splits)
  next
    case False
    then show ?thesis
      using "1.prems"
      by (subst (asm) get_field_search.simps) (auto simp: Let_def split: if_splits)
  qed
qed

lemma get_field_smaller:
  "get_field d key throw_bool = Inr v \<Longrightarrow> has v \<Longrightarrow> size v < size d"
proof -
  assume g: "get_field d key throw_bool = Inr v" and h: "has v"
  then obtain ps where d: "d = DObject ps"
    by (cases d) (auto simp: get_field_def)
  from g h d have "get_field_search ps key 0 (length ps) = Inr (Some v)"
    by (auto simp: get_field_def has_def split: sum.splits option.splits if_splits)
  then have "v \<in> snd ` set ps" by (rule get_field_search_member)
  then obtain k where "(k, v) \<in> set ps" by auto
  then have "size v < size_list (size_prod (\<lambda>_. 0) size) ps"
    by (induction ps) auto
  with d show ?thesis by simp
qed

text \<open>
  \<open>drop_literals\<close> returns the datum and \<open>*encountered_literal_out\<close>.  The two
  loops carry the pairs (elements) already visited, those still to visit,
  \<open>need_to_copy\<close> and the builder.
\<close>

function drop_literals :: "externals \<Rightarrow> datum \<Rightarrow> failure + (datum \<times> bool)"
  and drop_literals_obj ::
    "externals \<Rightarrow> (byte list \<times> datum) list \<Rightarrow> (byte list \<times> datum) list \<Rightarrow> bool \<Rightarrow> datum_map
       \<Rightarrow> failure + (bool \<times> datum_map)"
  and drop_literals_arr ::
    "externals \<Rightarrow> datum list \<Rightarrow> datum list \<Rightarrow> bool \<Rightarrow> datum_array_builder_t
       \<Rightarrow> failure + (bool \<times> datum_array_builder_t)"
where
  "drop_literals E d =
     (case is_ptype_of d literal_string of
        Inl e \<Rightarrow> Inl e
      | Inr is_literal \<Rightarrow>
          if is_literal then
            (case get_field d value_key NOTHROW of
               Inl e \<Rightarrow> Inl e
             | Inr val \<Rightarrow>
                 if has val then
                   (case drop_literals E val of
                      Inl e \<Rightarrow> Inl e
                    | Inr (val', encountered_literal) \<Rightarrow>
                        if encountered_literal then Inl Fatal else Inr (val', True))
                 else Inr (val, True))
          else
            (case d of
               DObject ps \<Rightarrow>
                 (case drop_literals_obj E [] ps False [] of
                    Inl e \<Rightarrow> Inl e
                  | Inr (need_to_copy, builder) \<Rightarrow>
                      (case object_builder_to_datum E builder of
                         Inl e \<Rightarrow> Inl e
                       | Inr copied_result \<Rightarrow>
                           if need_to_copy then Inr (copied_result, True) else Inr (d, False)))
             | DArray xs \<Rightarrow>
                 (case drop_literals_arr E [] xs False (array_builder unlimited) of
                    Inl e \<Rightarrow> Inl e
                  | Inr (need_to_copy, builder) \<Rightarrow>
                      if need_to_copy then Inr (array_builder_to_datum builder, True)
                      else Inr (d, False))
             | _ \<Rightarrow> Inr (d, False)))"
| "drop_literals_obj E visited [] need_to_copy builder = Inr (need_to_copy, builder)"
| "drop_literals_obj E visited (pair # rest) need_to_copy builder =
     (case drop_literals E (snd pair) of
        Inl e \<Rightarrow> Inl e
      | Inr (val, encountered_literal) \<Rightarrow>
          (case (if encountered_literal \<and> \<not> need_to_copy then copy_pairs visited builder
                 else Inr builder) of
             Inl e \<Rightarrow> Inl e
           | Inr builder1 \<Rightarrow>
               (case (if (need_to_copy \<or> encountered_literal) \<and> has val
                      then add_no_conflict builder1 (fst pair) val
                      else Inr builder1) of
                  Inl e \<Rightarrow> Inl e
                | Inr builder2 \<Rightarrow>
                    drop_literals_obj E (visited @ [pair]) rest
                      (need_to_copy \<or> encountered_literal) builder2)))"
| "drop_literals_arr E visited [] need_to_copy builder = Inr (need_to_copy, builder)"
| "drop_literals_arr E visited (x # rest) need_to_copy builder =
     (case drop_literals E x of
        Inl e \<Rightarrow> Inl e
      | Inr (val, encountered_literal) \<Rightarrow>
          (case (if encountered_literal \<and> \<not> need_to_copy then copy_elems visited builder
                 else Inr builder) of
             Inl e \<Rightarrow> Inl e
           | Inr builder1 \<Rightarrow>
               (case (if (need_to_copy \<or> encountered_literal) \<and> has val
                      then array_builder_add builder1 val
                      else Inr builder1) of
                  Inl e \<Rightarrow> Inl e
                | Inr builder2 \<Rightarrow>
                    drop_literals_arr E (visited @ [x]) rest
                      (need_to_copy \<or> encountered_literal) builder2)))"
  by pat_completeness auto
termination
  apply (relation "measure (\<lambda>x. case x of
            Inl (E, d) \<Rightarrow> size d
          | Inr (Inl (E, visited, rest, n, b)) \<Rightarrow> size_list (size_prod (\<lambda>_. 0) size) rest
          | Inr (Inr (E, visited, rest, n, b)) \<Rightarrow> size_list size rest)")
        apply (auto dest: get_field_smaller)
  done

declare drop_literals.simps(1) [simp del]

text \<open>\<open>merge(const datum_t &rhs)\<close>; the loop carries the builder \<open>d\<close>.\<close>

function merge :: "externals \<Rightarrow> datum \<Rightarrow> datum \<Rightarrow> failure + datum"
  and merge_loop ::
    "externals \<Rightarrow> datum_map \<Rightarrow> (byte list \<times> datum) list \<Rightarrow> failure + datum_map"
where
  "merge E lhs rhs =
     (if get_type lhs \<noteq> R_OBJECT \<or> get_type rhs \<noteq> R_OBJECT then Inr rhs
      else
        (case object_builder_from lhs of
           Inl e \<Rightarrow> Inl e
         | Inr d \<Rightarrow>
             (case rhs of
                DObject ps \<Rightarrow>
                  (case merge_loop E d ps of
                     Inl e \<Rightarrow> Inl e
                   | Inr d' \<Rightarrow> object_builder_to_datum E d')
              | _ \<Rightarrow> Inl (Exc GENERIC))))"
| "merge_loop E d [] = Inr d"
| "merge_loop E d (pair # rest) =
     (let sub_lhs = object_builder_try_get d (fst pair) in
      case is_ptype_of (snd pair) literal_string of
        Inl e \<Rightarrow> Inl e
      | Inr is_literal \<Rightarrow>
          if get_type (snd pair) = R_OBJECT \<and> has sub_lhs \<and> \<not> is_literal then
            (case merge E sub_lhs (snd pair) of
               Inl e \<Rightarrow> Inl e
             | Inr merged \<Rightarrow>
                 (case object_builder_overwrite d (fst pair) merged of
                    Inl e \<Rightarrow> Inl e
                  | Inr d1 \<Rightarrow> merge_loop E d1 rest))
          else
            (case (if is_literal then get_field (snd pair) value_key NOTHROW
                   else Inr (snd pair)) of
               Inl e \<Rightarrow> Inl e
             | Inr val \<Rightarrow>
                 (case (if has val then
                          (case drop_literals E val of
                             Inl e \<Rightarrow> Inl e
                           | Inr (val', encountered_literal) \<Rightarrow>
                               if \<not> (\<not> encountered_literal \<or> \<not> is_literal) then Inl Fatal
                               else Inr val')
                        else Inr val) of
                    Inl e \<Rightarrow> Inl e
                  | Inr val1 \<Rightarrow>
                      if has val1 then
                        (case object_builder_overwrite d (fst pair) val1 of
                           Inl e \<Rightarrow> Inl e
                         | Inr d1 \<Rightarrow> merge_loop E d1 rest)
                      else if \<not> is_literal then Inl Fatal
                      else merge_loop E (fst (object_builder_delete_field d (fst pair))) rest)))"
  by pat_completeness auto
termination
  apply (relation "measure (\<lambda>x. case x of
            Inl (E, lhs, rhs) \<Rightarrow> size rhs
          | Inr (E, d, rest) \<Rightarrow> size_list (size_prod (\<lambda>_. 0) size) rest)")
       apply auto
  done

declare merge.simps(1) [simp del]

subsection \<open>Comparison\<close>

definition pseudo_cmp ::
  "externals \<Rightarrow> reql_version_t \<Rightarrow> datum \<Rightarrow> datum \<Rightarrow> failure + int" where
  "pseudo_cmp E reql_version d rhs =
     (if \<not> is_ptype d then Inl Fatal
      else if get_type d = R_BINARY then
        (case as_binary d of
           Inl e \<Rightarrow> Inl e
         | Inr x \<Rightarrow> (case as_binary rhs of Inl e \<Rightarrow> Inl e | Inr y \<Rightarrow> Inr (byte_cmp x y)))
      else
        (case get_reql_type d of
           Inl e \<Rightarrow> Inl e
         | Inr t \<Rightarrow>
             if t = time_string then time_cmp E reql_version d rhs
             else Inl (Exc GENERIC)))"

text \<open>\<open>is_ptype() && !pseudo_compares_as_obj()\<close>, evaluated left to right.\<close>

definition compares_as_ptype :: "datum \<Rightarrow> failure + bool" where
  "compares_as_ptype d =
     (if is_ptype d then
        (case pseudo_compares_as_obj d of Inl e \<Rightarrow> Inl e | Inr c \<Rightarrow> Inr (\<not> c))
      else Inr False)"

definition cmp_scalars :: "datum \<Rightarrow> datum \<Rightarrow> failure + int" where
  "cmp_scalars d rhs =
     (case d of
        DNull \<Rightarrow> Inr 0
      | DBool _ \<Rightarrow>
          (case as_bool d of
             Inl e \<Rightarrow> Inl e
           | Inr x \<Rightarrow>
               (case as_bool rhs of Inl e \<Rightarrow> Inl e | Inr y \<Rightarrow> Inr (derived_cmp_bool x y)))
      | DNum _ \<Rightarrow>
          (case as_num d of
             Inl e \<Rightarrow> Inl e
           | Inr x \<Rightarrow>
               (case as_num rhs of Inl e \<Rightarrow> Inl e | Inr y \<Rightarrow> Inr (derived_cmp_double x y)))
      | DStr _ \<Rightarrow>
          (case as_str d of
             Inl e \<Rightarrow> Inl e
           | Inr x \<Rightarrow> (case as_str rhs of Inl e \<Rightarrow> Inl e | Inr y \<Rightarrow> Inr (byte_cmp x y)))
      | _ \<Rightarrow> Inl Fatal)"

fun modern_cmp :: "externals \<Rightarrow> datum \<Rightarrow> datum \<Rightarrow> failure + int"
  and modern_cmp_arr :: "externals \<Rightarrow> datum list \<Rightarrow> datum list \<Rightarrow> failure + int"
  and modern_cmp_obj ::
    "externals \<Rightarrow> (byte list \<times> datum) list \<Rightarrow> (byte list \<times> datum) list \<Rightarrow> failure + int"
where
  "modern_cmp E d rhs =
     (case compares_as_ptype d of
        Inl e \<Rightarrow> Inl e
      | Inr lhs_ptype \<Rightarrow>
          (case compares_as_ptype rhs of
             Inl e \<Rightarrow> Inl e
           | Inr rhs_ptype \<Rightarrow>
               if lhs_ptype \<and> rhs_ptype then
                 (case get_reql_type d of
                    Inl e \<Rightarrow> Inl e
                  | Inr t \<Rightarrow>
                      (case get_reql_type rhs of
                         Inl e \<Rightarrow> Inl e
                       | Inr rhs_t \<Rightarrow>
                           if t \<noteq> rhs_t then Inr (derived_cmp_str t rhs_t)
                           else pseudo_cmp E v1_16_is_latest d rhs))
               else if lhs_ptype \<or> rhs_ptype then
                 (case get_type_name d of
                    Inl e \<Rightarrow> Inl e
                  | Inr n \<Rightarrow>
                      (case get_type_name rhs of
                         Inl e \<Rightarrow> Inl e
                       | Inr rhs_n \<Rightarrow> Inr (derived_cmp_str n rhs_n)))
               else if get_type d \<noteq> get_type rhs then
                 Inr (derived_cmp_nat (type_rank E (get_type d)) (type_rank E (get_type rhs)))
               else
                 (case d of
                    DArray xs \<Rightarrow>
                      (case rhs of
                         DArray ys \<Rightarrow> modern_cmp_arr E xs ys
                       | _ \<Rightarrow> Inl (Exc GENERIC))
                  | DObject ps \<Rightarrow>
                      (case rhs of
                         DObject qs \<Rightarrow> modern_cmp_obj E ps qs
                       | _ \<Rightarrow> Inl (Exc GENERIC))
                  | _ \<Rightarrow> cmp_scalars d rhs)))"
| "modern_cmp_arr E [] [] = Inr 0"
| "modern_cmp_arr E [] (y # ys) = Inr (- 1)"
| "modern_cmp_arr E (x # xs) [] = Inr 1"
| "modern_cmp_arr E (x # xs) (y # ys) =
     (case modern_cmp E x y of
        Inl e \<Rightarrow> Inl e
      | Inr cmpval \<Rightarrow> if cmpval \<noteq> 0 then Inr cmpval else modern_cmp_arr E xs ys)"
| "modern_cmp_obj E [] [] = Inr 0"
| "modern_cmp_obj E (pair # ps) [] = Inr 1"
| "modern_cmp_obj E [] (pair2 # qs) = Inr (- 1)"
| "modern_cmp_obj E (pair # ps) (pair2 # qs) =
     (let key_cmpval = byte_cmp (fst pair) (fst pair2) in
      if key_cmpval \<noteq> 0 then Inr key_cmpval
      else
        (case modern_cmp E (snd pair) (snd pair2) of
           Inl e \<Rightarrow> Inl e
         | Inr val_cmpval \<Rightarrow>
             if val_cmpval \<noteq> 0 then Inr val_cmpval else modern_cmp_obj E ps qs))"

declare modern_cmp.simps(1) [simp del]

fun v1_13_cmp :: "externals \<Rightarrow> datum \<Rightarrow> datum \<Rightarrow> failure + int"
  and v1_13_cmp_arr :: "externals \<Rightarrow> datum list \<Rightarrow> datum list \<Rightarrow> failure + int"
  and v1_13_cmp_obj ::
    "externals \<Rightarrow> (byte list \<times> datum) list \<Rightarrow> (byte list \<times> datum) list \<Rightarrow> failure + int"
where
  "v1_13_cmp E d rhs =
     (if is_ptype d \<and> \<not> is_ptype rhs then Inr 1
      else if \<not> is_ptype d \<and> is_ptype rhs then Inr (- 1)
      else if get_type d \<noteq> get_type rhs then
        Inr (derived_cmp_nat (type_rank E (get_type d)) (type_rank E (get_type rhs)))
      else
        (case d of
           DArray xs \<Rightarrow>
             (case rhs of
                DArray ys \<Rightarrow> v1_13_cmp_arr E xs ys
              | _ \<Rightarrow> Inl (Exc GENERIC))
         | DObject ps \<Rightarrow>
             (case compares_as_ptype d of
                Inl e \<Rightarrow> Inl e
              | Inr True \<Rightarrow>
                  (case get_reql_type d of
                     Inl e \<Rightarrow> Inl e
                   | Inr t \<Rightarrow>
                       (case get_reql_type rhs of
                          Inl e \<Rightarrow> Inl e
                        | Inr rhs_t \<Rightarrow>
                            if t \<noteq> rhs_t then Inr (derived_cmp_str t rhs_t)
                            else pseudo_cmp E v1_13 d rhs))
              | Inr False \<Rightarrow>
                  (case rhs of
                     DObject qs \<Rightarrow> v1_13_cmp_obj E ps qs
                   | _ \<Rightarrow> Inl (Exc GENERIC)))
         | _ \<Rightarrow> cmp_scalars d rhs))"
| "v1_13_cmp_arr E [] [] = Inr 0"
| "v1_13_cmp_arr E [] (y # ys) = Inr (- 1)"
| "v1_13_cmp_arr E (x # xs) [] = Inr 1"
| "v1_13_cmp_arr E (x # xs) (y # ys) =
     (case v1_13_cmp E x y of
        Inl e \<Rightarrow> Inl e
      | Inr cmpval \<Rightarrow> if cmpval \<noteq> 0 then Inr cmpval else v1_13_cmp_arr E xs ys)"
| "v1_13_cmp_obj E [] [] = Inr 0"
| "v1_13_cmp_obj E (pair # ps) [] = Inr 1"
| "v1_13_cmp_obj E [] (pair2 # qs) = Inr (- 1)"
| "v1_13_cmp_obj E (pair # ps) (pair2 # qs) =
     (let key_cmpval = byte_cmp (fst pair) (fst pair2) in
      if key_cmpval \<noteq> 0 then Inr key_cmpval
      else
        (case v1_13_cmp E (snd pair) (snd pair2) of
           Inl e \<Rightarrow> Inl e
         | Inr val_cmpval \<Rightarrow>
             if val_cmpval \<noteq> 0 then Inr val_cmpval else v1_13_cmp_obj E ps qs))"

declare v1_13_cmp.simps(1) [simp del]

definition cmp :: "externals \<Rightarrow> reql_version_t \<Rightarrow> datum \<Rightarrow> datum \<Rightarrow> failure + int" where
  "cmp E reql_version d rhs =
     (case reql_version of
        v1_13 \<Rightarrow> v1_13_cmp E d rhs
      | v1_14 \<Rightarrow> modern_cmp E d rhs
      | v1_16_is_latest \<Rightarrow> modern_cmp E d rhs)"





subsection \<open>Ranges\<close>

datatype bound_t = bound_open | bound_closed | bound_none




subsection \<open>The JSON and protobuf bridges\<close>

text \<open>A \<open>const char *\<close> ends at its first NUL.\<close>

definition c_str :: "byte list \<Rightarrow> byte list" where
  "c_str s = takeWhile (\<lambda>b. b \<noteq> 0) s"

text \<open>
  \<open>fail_if_invalid\<close>, in its \<open>std::string\<close> form; the \<open>const char *\<close> form is this
  one applied to \<open>c_str\<close>.
\<close>

definition fail_if_invalid :: "externals \<Rightarrow> reql_version_t \<Rightarrow> byte list \<Rightarrow> failure + unit" where
  "fail_if_invalid E reql_version string =
     (case reql_version of
        v1_13 \<Rightarrow> Inr ()
      | v1_14 \<Rightarrow> Inr ()
      | v1_16_is_latest \<Rightarrow>
          if \<not> utf8_is_valid E string then Inl (Exc GENERIC) else Inr ())"

text \<open>\<open>to_datum(cJSON *, ...)\<close>; the loops carry the vector and the object builder.\<close>

fun json_to_datum ::
    "externals \<Rightarrow> cJSON \<Rightarrow> configured_limits_t \<Rightarrow> reql_version_t \<Rightarrow> failure + datum"
  and json_array_items ::
    "externals \<Rightarrow> cJSON list \<Rightarrow> configured_limits_t \<Rightarrow> reql_version_t \<Rightarrow> datum list
       \<Rightarrow> failure + datum list"
  and json_object_items ::
    "externals \<Rightarrow> (byte list \<times> cJSON) list \<Rightarrow> configured_limits_t \<Rightarrow> reql_version_t \<Rightarrow> datum_map
       \<Rightarrow> failure + datum_map"
where
  "json_to_datum E json lim reql_version =
     (case json of
        cJSON_False \<Rightarrow> Inr (DBool False)
      | cJSON_True \<Rightarrow> Inr (DBool True)
      | cJSON_NULL \<Rightarrow> Inr DNull
      | cJSON_Number valuedouble \<Rightarrow> datum_num valuedouble
      | cJSON_String valuestring \<Rightarrow>
          (case fail_if_invalid E reql_version (c_str valuestring) of
             Inl e \<Rightarrow> Inl e
           | Inr _ \<Rightarrow> Inr (DStr (c_str valuestring)))
      | cJSON_Array items \<Rightarrow>
          (case json_array_items E items lim reql_version [] of
             Inl e \<Rightarrow> Inl e
           | Inr array \<Rightarrow> datum_array array lim)
      | cJSON_Object items \<Rightarrow>
          (case json_object_items E items lim reql_version [] of
             Inl e \<Rightarrow> Inl e
           | Inr builder \<Rightarrow> object_builder_to_datum_pts E builder {literal_string}))"
| "json_array_items E [] lim reql_version array = Inr array"
| "json_array_items E (item # items) lim reql_version array =
     (case json_to_datum E item lim reql_version of
        Inl e \<Rightarrow> Inl e
      | Inr d \<Rightarrow> json_array_items E items lim reql_version (array @ [d]))"
| "json_object_items E [] lim reql_version builder = Inr builder"
| "json_object_items E (item # items) lim reql_version builder =
     (case fail_if_invalid E reql_version (c_str (fst item)) of
        Inl e \<Rightarrow> Inl e
      | Inr _ \<Rightarrow>
          (case json_to_datum E (snd item) lim reql_version of
             Inl e \<Rightarrow> Inl e
           | Inr d \<Rightarrow>
               (case object_builder_add builder (c_str (fst item)) d of
                  Inl e \<Rightarrow> Inl e
                | Inr (builder1, dup) \<Rightarrow>
                    if dup then Inl (Exc GENERIC)
                    else json_object_items E items lim reql_version builder1)))"

declare json_to_datum.simps(1) [simp del]

text \<open>
  \<open>to_datum(const Datum *, ...)\<close>.  A \<open>cJSON_Parse\<close> that returns no tree leaves
  \<open>to_datum\<close> reading through a null pointer.
\<close>

fun protobuf_to_datum ::
    "externals \<Rightarrow> Datum \<Rightarrow> configured_limits_t \<Rightarrow> reql_version_t \<Rightarrow> failure + datum"
  and protobuf_array_items ::
    "externals \<Rightarrow> Datum list \<Rightarrow> configured_limits_t \<Rightarrow> reql_version_t \<Rightarrow> datum_array_builder_t
       \<Rightarrow> failure + datum_array_builder_t"
  and protobuf_object_items ::
    "externals \<Rightarrow> (byte list \<times> Datum) list \<Rightarrow> configured_limits_t \<Rightarrow> reql_version_t \<Rightarrow> datum_map
       \<Rightarrow> failure + datum_map"
where
  "protobuf_to_datum E d lim reql_version =
     (case d of
        Datum_R_NULL \<Rightarrow> Inr DNull
      | Datum_R_BOOL b \<Rightarrow> Inr (DBool b)
      | Datum_R_NUM n \<Rightarrow> datum_num n
      | Datum_R_STR s \<Rightarrow>
          (case fail_if_invalid E reql_version s of
             Inl e \<Rightarrow> Inl e
           | Inr _ \<Rightarrow> datum_string s)
      | Datum_R_JSON s \<Rightarrow>
          (case fail_if_invalid E reql_version s of
             Inl e \<Rightarrow> Inl e
           | Inr _ \<Rightarrow>
               (case cJSON_Parse E (c_str s) of
                  None \<Rightarrow> Inl Undefined
                | Some cjson \<Rightarrow> json_to_datum E cjson lim reql_version))
      | Datum_R_ARRAY items \<Rightarrow>
          (case protobuf_array_items E items lim reql_version (array_builder lim) of
             Inl e \<Rightarrow> Inl e
           | Inr out \<Rightarrow> Inr (array_builder_to_datum out))
      | Datum_R_OBJECT items \<Rightarrow>
          (case protobuf_object_items E items lim reql_version [] of
             Inl e \<Rightarrow> Inl e
           | Inr m \<Rightarrow> datum_object E m {literal_string}))"
| "protobuf_array_items E [] lim reql_version out = Inr out"
| "protobuf_array_items E (item # items) lim reql_version out =
     (case protobuf_to_datum E item lim reql_version of
        Inl e \<Rightarrow> Inl e
      | Inr d \<Rightarrow>
          (case array_builder_add out d of
             Inl e \<Rightarrow> Inl e
           | Inr out1 \<Rightarrow> protobuf_array_items E items lim reql_version out1))"
| "protobuf_object_items E [] lim reql_version m = Inr m"
| "protobuf_object_items E (ap # items) lim reql_version m =
     (case check_str_validity (fst ap) of
        Inl e \<Rightarrow> Inl e
      | Inr _ \<Rightarrow>
          (case fail_if_invalid E reql_version (fst ap) of
             Inl e \<Rightarrow> Inl e
           | Inr _ \<Rightarrow>
               (case protobuf_to_datum E (snd ap) lim reql_version of
                  Inl e \<Rightarrow> Inl e
                | Inr d \<Rightarrow>
                    (case map_insert m (fst ap) d of
                       (m1, inserted) \<Rightarrow>
                         if \<not> inserted then Inl (Exc GENERIC)
                         else protobuf_object_items E items lim reql_version m1))))"

declare protobuf_to_datum.simps(1) [simp del]

subsection \<open>An instance of the external declarations\<close>

text \<open>
  Well-formed UTF-8 as the Unicode standard tabulates it: the validator used when
  the model is evaluated on concrete strings.
\<close>

definition is_cont :: "byte \<Rightarrow> bool" where
  "is_cont c = (0x80 \<le> c \<and> c \<le> 0xBF)"

fun utf8_wf :: "byte list \<Rightarrow> bool" where
  "utf8_wf [] = True"
| "utf8_wf (b # bs) =
     (if b \<le> 0x7F then utf8_wf bs
      else if 0xC2 \<le> b \<and> b \<le> 0xDF then
        (case bs of c1 # r \<Rightarrow> is_cont c1 \<and> utf8_wf r | _ \<Rightarrow> False)
      else if 0xE0 \<le> b \<and> b \<le> 0xEF then
        (case bs of
           c1 # c2 # r \<Rightarrow>
             (if b = 0xE0 then 0xA0 \<le> c1 \<and> c1 \<le> 0xBF
              else if b = 0xED then 0x80 \<le> c1 \<and> c1 \<le> 0x9F
              else is_cont c1)
             \<and> is_cont c2 \<and> utf8_wf r
         | _ \<Rightarrow> False)
      else if 0xF0 \<le> b \<and> b \<le> 0xF4 then
        (case bs of
           c1 # c2 # c3 # r \<Rightarrow>
             (if b = 0xF0 then 0x90 \<le> c1 \<and> c1 \<le> 0xBF
              else if b = 0xF4 then 0x80 \<le> c1 \<and> c1 \<le> 0x8F
              else is_cont c1)
             \<and> is_cont c2 \<and> is_cont c3 \<and> utf8_wf r
         | _ \<Rightarrow> False)
      else False)"

text \<open>
  The order in which \<open>data_wrapper_t::get_type\<close> lists the enumerators of
  \<open>type_t\<close>.
\<close>

fun listed_rank :: "type_t \<Rightarrow> nat" where
  "listed_rank UNINITIALIZED = 0"
| "listed_rank R_ARRAY = 1"
| "listed_rank R_BINARY = 2"
| "listed_rank R_BOOL = 3"
| "listed_rank R_NULL = 4"
| "listed_rank R_NUM = 5"
| "listed_rank R_OBJECT = 6"
| "listed_rank R_STR = 7"

text \<open>
  Concrete values for the external declarations, used to run the model on examples:
  keys of at most 250 bytes (section 6.5), primary keys of at most 128, the types
  ranked as listed, and well-formed UTF-8.  The rendering of a double, the JSON
  parser and the pseudotype helpers are stand-ins: the first is empty, the parser
  returns no tree, the others raise GENERIC; no example reaches them.
\<close>

definition test_externals :: externals where
  "test_externals =
     \<lparr>MAX_KEY_SIZE = 250,
      MAX_PRIMARY_KEY_SIZE = 128,
      type_rank = listed_rank,
      reconstructable_double = (\<lambda>_. []),
      utf8_is_valid = utf8_wf,
      cJSON_Parse = (\<lambda>_. None),
      time_to_str_key = (\<lambda>_ _. Inl (Exc GENERIC)),
      time_cmp = (\<lambda>_ _ _. Inl (Exc GENERIC)),
      sanitize_time = (\<lambda>_. Inl (Exc GENERIC)),
      sanitize_geometry = (\<lambda>_. Inl (Exc GENERIC)),
      rcheck_literal_valid = (\<lambda>_. Inl (Exc GENERIC)),
      decode_base64_ptype = (\<lambda>_. Inl (Exc GENERIC))\<rparr>"

subsection \<open>The strings a bridge reads\<close>

text \<open>
  Every string value and every object key of a \<open>cJSON\<close> tree (as C strings), and
  every string, key and JSON text of a protobuf \<open>Datum\<close>.
\<close>

fun json_strings :: "cJSON \<Rightarrow> byte list list" where
  "json_strings (cJSON_String s) = [c_str s]"
| "json_strings (cJSON_Array items) = concat (map json_strings items)"
| "json_strings (cJSON_Object items) =
     concat (map (\<lambda>item. c_str (fst item) # json_strings (snd item)) items)"
| "json_strings _ = []"

fun protobuf_strings :: "Datum \<Rightarrow> byte list list" where
  "protobuf_strings (Datum_R_STR s) = [s]"
| "protobuf_strings (Datum_R_JSON s) = [s]"
| "protobuf_strings (Datum_R_ARRAY items) = concat (map protobuf_strings items)"
| "protobuf_strings (Datum_R_OBJECT items) =
     concat (map (\<lambda>ap. fst ap # protobuf_strings (snd ap)) items)"
| "protobuf_strings _ = []"

subsection \<open>Notions used to state the properties\<close>

text \<open>
  The keys of a map or object are in strictly ascending order.
\<close>

definition sorted_keys :: "datum_map \<Rightarrow> bool" where
  "sorted_keys m = sorted_wrt (<) (map fst m)"

text \<open>
  The literal pseudotype with a value, the literal without one, and the datums in
  which no literal occurs: \<open>is_ptype(literal_string)\<close> is false of every object in
  them.
\<close>

definition literal_of :: "datum \<Rightarrow> datum" where
  "literal_of v = DObject [(reql_type_string, DStr literal_string), (value_key, v)]"

definition literal_empty :: datum where
  "literal_empty = DObject [(reql_type_string, DStr literal_string)]"

fun literal_free :: "datum \<Rightarrow> bool" where
  "literal_free (DObject ps) =
     (is_ptype_of (DObject ps) literal_string = Inr False
      \<and> list_all (\<lambda>pair. literal_free (snd pair)) ps)"
| "literal_free (DArray xs) = list_all literal_free xs"
| "literal_free d = True"

section \<open>Properties\<close>

text \<open>
  C6 (as amended).  \<open>as_bool\<close> has no failing branch: on a datum whose variant is
  not BOOL it returns whether the variant differs from NULL.
\<close>

theorem as_bool_non_bool_truthy:
  "get_type d \<noteq> R_BOOL \<Longrightarrow> as_bool d = Inr (get_type d \<noteq> R_NULL)"
  by (simp add: as_bool_def)

theorem as_bool_non_bool_truthy_witness:
  "get_type (DStr (str ''x'')) \<noteq> R_BOOL \<and> as_bool (DStr (str ''x'')) = Inr True"
  using as_bool_non_bool_truthy [of "DStr (str ''x'')"] by simp

text \<open>
  C6, as stated, fails: \<open>as_bool\<close> of the NULL datum returns \<open>false\<close> and raises no
  error.
\<close>

theorem as_bool_null_counterexample:
  "get_type DNull \<noteq> R_BOOL \<and> as_bool DNull = Inr False \<and> as_bool DNull \<noteq> Inl (Exc GENERIC)"
  by (simp add: as_bool_def)

text \<open>
  C7 (as amended).  The size-checked array constructor fails whenever the vector is
  longer than the limit, and the error kind it passes to the check is GENERIC.
\<close>

theorem datum_array_over_limit_generic:
  "array_size_limit lim < length elems \<Longrightarrow> datum_array elems lim = Inl (Exc GENERIC)"
  by (simp add: datum_array_def rcheck_array_size_def)

theorem datum_array_over_limit_generic_witness:
  "array_size_limit \<lparr>array_size_limit = 1\<rparr> < length [DNull, DBool True]
   \<and> datum_array [DNull, DBool True] \<lparr>array_size_limit = 1\<rparr> = Inl (Exc GENERIC)"
  using datum_array_over_limit_generic [of "\<lparr>array_size_limit = 1\<rparr>" "[DNull, DBool True]"]
  by simp

text \<open>
  C7, as stated, fails: a two-element vector under a limit of one is rejected with
  kind GENERIC, which is not TOO_LARGE.
\<close>

theorem datum_array_too_large_counterexample:
  "array_size_limit \<lparr>array_size_limit = 1\<rparr> < length [DNull, DNull]
   \<and> datum_array [DNull, DNull] \<lparr>array_size_limit = 1\<rparr> \<noteq> Inl (Exc TOO_LARGE)"
  by (simp add: datum_array_def rcheck_array_size_def)

text \<open>
  C5 (as amended).  For an index inside the vector: under v1_13 \<open>insert\<close> and
  \<open>splice\<close> succeed whatever the limit is; under v1_14 and v1_16 they fail with
  GENERIC exactly when the grown vector is longer than the limit; \<open>change\<close> keeps
  the length and never consults the limit; \<open>to_datum\<close> returns the vector as an
  array without a size check.
\<close>

theorem array_builder_limit_by_version:
  assumes "index \<le> length (vector b)"
  shows
    "array_builder_insert b v1_13 index val
       = Inr (b\<lparr>vector := take index (vector b) @ [val] @ drop index (vector b)\<rparr>)
     \<and> array_builder_splice b v1_13 index (DArray arr)
       = Inr (b\<lparr>vector := take index (vector b) @ arr @ drop index (vector b)\<rparr>)
     \<and> (reql_version \<noteq> v1_13 \<longrightarrow>
          (array_builder_insert b reql_version index val = Inl (Exc GENERIC))
            = (array_size_limit (limits b) < length (vector b) + 1))
     \<and> (reql_version \<noteq> v1_13 \<longrightarrow>
          (array_builder_splice b reql_version index (DArray arr) = Inl (Exc GENERIC))
            = (array_size_limit (limits b) < length (vector b) + length arr))
     \<and> (index < length (vector b) \<longrightarrow>
          array_builder_change b index val = Inr (b\<lparr>vector := (vector b)[index := val]\<rparr>))
     \<and> array_builder_to_datum b = DArray (vector b)"
proof -
  have ins13: "array_builder_insert b v1_13 index val
       = Inr (b\<lparr>vector := take index (vector b) @ [val] @ drop index (vector b)\<rparr>)"
    using assms by (simp add: array_builder_insert_def)
  have spl13: "array_builder_splice b v1_13 index (DArray arr)
       = Inr (b\<lparr>vector := take index (vector b) @ arr @ drop index (vector b)\<rparr>)"
    using assms by (simp add: array_builder_splice_def)
  have ins: "reql_version \<noteq> v1_13 \<longrightarrow>
          (array_builder_insert b reql_version index val = Inl (Exc GENERIC))
            = (array_size_limit (limits b) < length (vector b) + 1)"
    using assms
    by (cases reql_version)
       (auto simp: array_builder_insert_def rcheck_array_size_def Let_def)
  have spl: "reql_version \<noteq> v1_13 \<longrightarrow>
          (array_builder_splice b reql_version index (DArray arr) = Inl (Exc GENERIC))
            = (array_size_limit (limits b) < length (vector b) + length arr)"
    using assms
    by (cases reql_version)
       (auto simp: array_builder_splice_def rcheck_array_size_def Let_def)
  have chg: "index < length (vector b) \<longrightarrow>
          array_builder_change b index val = Inr (b\<lparr>vector := (vector b)[index := val]\<rparr>)"
    by (simp add: array_builder_change_def)
  have td: "array_builder_to_datum b = DArray (vector b)"
    by (simp add: array_builder_to_datum_def datum_array_unchecked_def)
  from ins13 spl13 ins spl chg td show ?thesis by blast
qed

theorem array_builder_limit_by_version_witness:
  "(0::nat) \<le> length (vector \<lparr>vector = [DNull], limits = \<lparr>array_size_limit = 1\<rparr>\<rparr>)
   \<and> array_builder_insert \<lparr>vector = [DNull], limits = \<lparr>array_size_limit = 1\<rparr>\<rparr>
        v1_13 0 (DBool True)
       = Inr \<lparr>vector = [DBool True, DNull], limits = \<lparr>array_size_limit = 1\<rparr>\<rparr>
   \<and> array_builder_insert \<lparr>vector = [DNull], limits = \<lparr>array_size_limit = 1\<rparr>\<rparr>
        v1_16_is_latest 0 (DBool True)
       = Inl (Exc GENERIC)"
  using array_builder_limit_by_version
    [of 0 "\<lparr>vector = [DNull], limits = \<lparr>array_size_limit = 1\<rparr>\<rparr>" "DBool True" "[]"
        v1_16_is_latest]
  by simp

text \<open>
  C5, as stated, fails: under v1_14 an \<open>insert\<close> into a builder that is already at
  its limit fails with GENERIC because of the size check, and so does a \<open>splice\<close>.
\<close>

theorem array_builder_insert_limit_counterexample:
  "array_builder_insert \<lparr>vector = [DNull], limits = \<lparr>array_size_limit = 1\<rparr>\<rparr>
     v1_14 0 DNull = Inl (Exc GENERIC)
   \<and> array_builder_splice \<lparr>vector = [DNull], limits = \<lparr>array_size_limit = 1\<rparr>\<rparr>
     v1_14 1 (DArray [DNull]) = Inl (Exc GENERIC)"
  by (simp add: array_builder_insert_def array_builder_splice_def rcheck_array_size_def)

subsection \<open>Secondary keys\<close>

lemma test_externals_sizes:
  "MAX_KEY_SIZE test_externals = 250" "MAX_PRIMARY_KEY_SIZE test_externals = 128"
  by (simp_all add: test_externals_def)

lemma upt8: "[0..<8] = [0, 1, 2, 3, 4, 5, 6, 7]"
  by (simp add: upt_rec)

lemma low_byte_or:
  "ucast (ucast (drop_bit n w) :: 8 word) OR push_bit 8 (drop_bit (n + 8) w)
   = drop_bit n (w :: 64 word)"
proof (rule bit_word_eqI)
  fix k :: nat
  assume kl: "k < LENGTH(64)"
  show "bit (ucast (ucast (drop_bit n w) :: 8 word) OR push_bit 8 (drop_bit (n + 8) w)) k
        = bit (drop_bit n w) k"
  proof (cases "k < 8")
    case True
    then show ?thesis by (simp add: bit_simps)
  next
    case False
    then have "n + 8 + (k - 8) = n + k" by simp
    with False kl show ?thesis by (simp add: bit_simps)
  qed
qed

lemma top_byte: "ucast (ucast (drop_bit 56 w) :: 8 word) = drop_bit 56 (w :: 64 word)"
proof (rule bit_word_eqI)
  fix k :: nat
  assume "k < LENGTH(64)"
  then show "bit (ucast (ucast (drop_bit 56 w) :: 8 word) :: 64 word) k = bit (drop_bit 56 w) k"
    by (auto simp: bit_simps dest: bit_imp_le_length)
qed

lemma decode_encode_tag: "decode_tag_num (encode_tag_num t) = t"
proof -
  have "decode_tag_num (encode_tag_num t) =
     ucast (ucast (drop_bit 0 t) :: 8 word) OR push_bit 8 (
     ucast (ucast (drop_bit 8 t) :: 8 word) OR push_bit 8 (
     ucast (ucast (drop_bit 16 t) :: 8 word) OR push_bit 8 (
     ucast (ucast (drop_bit 24 t) :: 8 word) OR push_bit 8 (
     ucast (ucast (drop_bit 32 t) :: 8 word) OR push_bit 8 (
     ucast (ucast (drop_bit 40 t) :: 8 word) OR push_bit 8 (
     ucast (ucast (drop_bit 48 t) :: 8 word) OR push_bit 8 (
     ucast (ucast (drop_bit 56 t) :: 8 word))))))))"
    unfolding decode_tag_num_def encode_tag_num_def tag_size_def upt8 by simp
  also have "\<dots> = drop_bit 0 t"
    using low_byte_or [of 0 t] low_byte_or [of 8 t] low_byte_or [of 16 t] low_byte_or [of 24 t]
      low_byte_or [of 32 t] low_byte_or [of 40 t] low_byte_or [of 48 t] top_byte [of t]
    by simp
  finally show ?thesis by simp
qed

lemma length_encode_tag: "length (encode_tag_num t) = 8"
  by (simp add: encode_tag_num_def tag_size_def)

lemma size_t_sub_nowrap: "b \<le> a \<Longrightarrow> a < 2 ^ 64 \<Longrightarrow> size_t_sub a b = a - b"
proof -
  assume h: "b \<le> a" "a < 2 ^ 64"
  have "(of_nat a :: 64 word) - of_nat b = of_nat (a - b)"
    using h by simp
  moreover have "a - b < 2 ^ 64" using h by simp
  ultimately show ?thesis
    by (simp add: size_t_sub_def unat_of_nat)
qed

lemma trunc_size_nowrap:
  assumes "n + 10 \<le> MAX_KEY_SIZE E" and "MAX_KEY_SIZE E < 2 ^ 64"
  shows "trunc_size E n = MAX_KEY_SIZE E - n - 8 - 2"
proof -
  have "(of_nat (MAX_KEY_SIZE E) :: 64 word) - of_nat n - of_nat 8 - 2
        = of_nat (MAX_KEY_SIZE E - n - 8 - 2)"
    using assms by simp
  moreover have "MAX_KEY_SIZE E - n - 8 - 2 < 2 ^ 64" using assms by simp
  ultimately show ?thesis
    by (simp add: trunc_size_def tag_size_def unat_of_nat)
qed

lemma compose_secondary_value:
  assumes K: "length p + 10 \<le> MAX_KEY_SIZE E" "MAX_KEY_SIZE E < 2 ^ 64"
    and P: "length p \<le> MAX_PRIMARY_KEY_SIZE E"
    and s': "s' = take (MAX_KEY_SIZE E - length p - 8 - 2) s"
    and short: "length s' + length p < 255"
  shows "compose_secondary E s p t
         = Inr (s' @ p @ (case t of Some n \<Rightarrow> encode_tag_num n | None \<Rightarrow> [])
                   @ [of_nat (length s'), of_nat (length p) + of_nat (length s')])"
proof -
  have ts: "take (trunc_size E (length p)) s = s'"
    using K s' by (simp add: trunc_size_nowrap)
  have ls: "length s' \<le> MAX_KEY_SIZE E - length p - 10"
    using s' by simp
  have lt: "length (case t of Some n \<Rightarrow> encode_tag_num n | None \<Rightarrow> []) \<le> 8"
    by (cases t) (simp_all add: length_encode_tag)
  have fits: "length s' + length p
                + length (case t of Some n \<Rightarrow> encode_tag_num n | None \<Rightarrow> []) + 2
              \<le> MAX_KEY_SIZE E"
    using K ls lt by linarith
  have m: "mangle_secondary E s' p (case t of Some n \<Rightarrow> encode_tag_num n | None \<Rightarrow> [])
           = Inr (s' @ p @ (case t of Some n \<Rightarrow> encode_tag_num n | None \<Rightarrow> [])
                   @ [of_nat (length s'), of_nat (length p) + of_nat (length s')])"
    using short fits by (simp add: mangle_secondary_def Let_def)
  show ?thesis
    using P m unfolding compose_secondary_def Let_def ts by simp
qed

lemma parse_secondary_mangled:
  assumes short: "length s' + length p < 255" and pos: "0 < length p"
    and tg: "tag = [] \<or> length tag = 8"
  shows "parse_secondary (s' @ p @ tag @ [of_nat (length s'), of_nat (length p) + of_nat (length s')])
         = Inr \<lparr>secondary = s', primary = p,
                 tag_num = (if tag = [] then None else Some (decode_tag_num tag))\<rparr>"
proof -
  define a :: byte where "a = of_nat (length s')"
  define b :: byte where "b = of_nat (length p) + of_nat (length s')"
  define key where "key = (s' @ p @ tag) @ [a, b]"
  have ua: "unat a = length s'"
    using short by (simp add: a_def unat_of_nat)
  have ub: "unat b = length s' + length p"
    using short by (simp add: b_def unat_word_ariths unat_of_nat)
  have lk: "length key = length s' + length p + length tag + 2"
    by (simp add: key_def)
  have last1: "key ! (length key - 1) = b"
    by (simp add: key_def nth_append)
  have last2: "key ! (length key - 2) = a"
    by (simp add: key_def nth_append)
  have ab: "a < b"
    using ua ub pos by (simp add: word_less_nat_alt)
  have sec: "substr key 0 (unat a) = Inr s'"
    by (simp add: substr_def ua key_def)
  have prim: "substr key (unat a) (unat b - unat a) = Inr p"
    by (simp add: substr_def ua ub key_def)
  have "length s' + length p + length tag + 2 < 2 ^ 64"
    using short tg by auto
  then have sub: "size_t_sub (length key) (unat b + 2) = length tag"
    by (simp add: size_t_sub_nowrap lk ub)
  have tgs: "substr key (unat b) (size_t_sub (length key) (unat b + 2)) = Inr tag"
    unfolding sub by (simp add: substr_def ub key_def)
  have "parse_secondary key
         = Inr \<lparr>secondary = s', primary = p,
                 tag_num = (if tag = [] then None else Some (decode_tag_num tag))\<rparr>"
    unfolding parse_secondary_def Let_def last1 last2 sec prim tgs
    using tg ab lk by auto
  then show ?thesis by (simp add: key_def a_def b_def)
qed

lemma secondary_abc_value:
  assumes "17 \<le> MAX_KEY_SIZE E" and "MAX_KEY_SIZE E < 2 ^ 64"
    and "2 \<le> MAX_PRIMARY_KEY_SIZE E" and "reql_version \<noteq> v1_13"
  shows "print_secondary E reql_version (DStr (str ''abc'')) (str ''pk'') (Some 7)
         = Inr [0x53, 0x61, 0x62, 0x63, 0x00, 0x70, 0x6b,
                0x07, 0x00, 0x00, 0x00, 0x00, 0x00, 0x00, 0x00, 0x05, 0x07]"
proof -
  have a: "size_t_sub (MAX_KEY_SIZE E) 1 = MAX_KEY_SIZE E - 1"
    using assms by (simp add: size_t_sub_nowrap)
  have s: "str_to_str_key E (DStr (str ''abc'')) [] = Inr [0x53, 0x61, 0x62, 0x63]"
    using assms a by (simp add: str_to_str_key_def str_def min_def)
  have tag: "encode_tag_num 7 = [7, 0, 0, 0, 0, 0, 0, 0]"
    by (simp add: encode_tag_num_def tag_size_def upt8 drop_bit_eq_div)
  have tk: "[0x53, 0x61, 0x62, 0x63, 0x00 :: byte]
            = take (MAX_KEY_SIZE E - length (str ''pk'') - 8 - 2) [0x53, 0x61, 0x62, 0x63, 0x00]"
    using assms by (simp add: str_def)
  have c: "compose_secondary E [0x53, 0x61, 0x62, 0x63, 0x00] (str ''pk'') (Some 7)
         = Inr ([0x53, 0x61, 0x62, 0x63, 0x00] @ str ''pk'' @ encode_tag_num 7
                 @ [of_nat (length [0x53, 0x61, 0x62, 0x63, 0x00 :: byte]),
                    of_nat (length (str ''pk''))
                      + of_nat (length [0x53, 0x61, 0x62, 0x63, 0x00 :: byte])])"
    using compose_secondary_value [of "str ''pk''" E "[0x53, 0x61, 0x62, 0x63, 0x00]"
                                      "[0x53, 0x61, 0x62, 0x63, 0x00]" "Some 7", OF _ _ _ tk]
      assms by (simp add: str_def)
  show ?thesis
    using assms(4) s c tag by (cases reql_version) (simp_all add: print_secondary_def str_def)
qed

text \<open>
  C8 (as amended).  Under v1_14 and v1_16 the secondary key of the string \<open>abc\<close>
  with primary key \<open>pk\<close> and tag 7 is the 17 bytes
  \<open>53 61 62 63 00 70 6b 07 00 00 00 00 00 00 00 05 07\<close>: the tag takes eight bytes
  and the offsets are 5 and 7, the terminator being part of the secondary.
\<close>

theorem print_secondary_abc_bytes:
  assumes "17 \<le> MAX_KEY_SIZE E" and "MAX_KEY_SIZE E < 2 ^ 64"
    and "2 \<le> MAX_PRIMARY_KEY_SIZE E" and "reql_version \<noteq> v1_13"
  shows "print_secondary E reql_version (DStr (str ''abc'')) (str ''pk'') (Some 7)
         = Inr [0x53, 0x61, 0x62, 0x63, 0x00, 0x70, 0x6b,
                0x07, 0x00, 0x00, 0x00, 0x00, 0x00, 0x00, 0x00, 0x05, 0x07]"
  using assms by (rule secondary_abc_value)

theorem print_secondary_abc_bytes_witness:
  "17 \<le> MAX_KEY_SIZE test_externals \<and> MAX_KEY_SIZE test_externals < 2 ^ 64
   \<and> 2 \<le> MAX_PRIMARY_KEY_SIZE test_externals \<and> v1_14 \<noteq> v1_13
   \<and> print_secondary test_externals v1_14 (DStr (str ''abc'')) (str ''pk'') (Some 7)
       = Inr [0x53, 0x61, 0x62, 0x63, 0x00, 0x70, 0x6b,
              0x07, 0x00, 0x00, 0x00, 0x00, 0x00, 0x00, 0x00, 0x05, 0x07]"
  using print_secondary_abc_bytes [of test_externals v1_14]
  by (simp add: test_externals_sizes)

text \<open>
  C8, as stated, fails: the key is not the 18 bytes ending in \<open>04 06\<close>.
\<close>

theorem print_secondary_abc_counterexample:
  "print_secondary test_externals v1_14 (DStr (str ''abc'')) (str ''pk'') (Some 7)
     \<noteq> Inr [0x53, 0x61, 0x62, 0x63, 0x00, 0x70, 0x6b,
            0x07, 0x00, 0x00, 0x00, 0x00, 0x00, 0x00, 0x00, 0x00, 0x04, 0x06]"
  using secondary_abc_value [of test_externals v1_14]
  by (simp add: test_externals_sizes)

text \<open>
  C10.  With \<open>MAX_PRIMARY_KEY_SIZE + 10 \<le> MAX_KEY_SIZE \<le> 264\<close> (the constants are
  128 and 250) and a primary key of at most \<open>MAX_PRIMARY_KEY_SIZE\<close> bytes,
  \<open>trunc_size\<close> does not wrap, the cut secondary and the cut secondary plus the
  primary are shorter than 255, \<open>compose_secondary\<close> returns a key of at most
  \<open>MAX_KEY_SIZE\<close> bytes whose last two bytes are the two offsets, unwrapped; and
  \<open>mangle_secondary\<close> stops fatally whenever one of its three guarantees is
  violated.
\<close>

theorem mangle_secondary_guarantees:
  assumes "MAX_PRIMARY_KEY_SIZE E + 10 \<le> MAX_KEY_SIZE E" and "MAX_KEY_SIZE E \<le> 264"
    and "length p \<le> MAX_PRIMARY_KEY_SIZE E"
    and "s' = take (trunc_size E (length p)) s"
    and "tag = (case t of Some n \<Rightarrow> encode_tag_num n | None \<Rightarrow> [])"
  shows "trunc_size E (length p) = MAX_KEY_SIZE E - length p - 8 - 2
         \<and> length s' < 255 \<and> length s' + length p < 255
         \<and> compose_secondary E s p t
             = Inr (s' @ p @ tag @ [of_nat (length s'), of_nat (length s' + length p)])
         \<and> length (s' @ p @ tag @ [of_nat (length s') :: byte, of_nat (length s' + length p)])
             \<le> MAX_KEY_SIZE E
         \<and> unat (of_nat (length s') :: byte) = length s'
         \<and> unat (of_nat (length s' + length p) :: byte) = length s' + length p
         \<and> (\<forall>sec prim tg.
               \<not> (length sec < 255 \<and> length sec + length prim < 255
                  \<and> length sec + length prim + length tg + 2 \<le> MAX_KEY_SIZE E)
               \<longrightarrow> mangle_secondary E sec prim tg = Inl Fatal)"
proof -
  have K: "length p + 10 \<le> MAX_KEY_SIZE E" "MAX_KEY_SIZE E < 2 ^ 64"
    using assms(1-3) by simp_all
  have ts: "trunc_size E (length p) = MAX_KEY_SIZE E - length p - 8 - 2"
    using K by (rule trunc_size_nowrap)
  have s'': "s' = take (MAX_KEY_SIZE E - length p - 8 - 2) s"
    using assms(4) ts by simp
  have ls: "length s' \<le> MAX_KEY_SIZE E - length p - 10"
    using s'' by simp
  have short: "length s' + length p < 255"
    using ls K assms(2) by linarith
  have short1: "length s' < 255"
    using short by simp
  have c: "compose_secondary E s p t
             = Inr (s' @ p @ tag @ [of_nat (length s'), of_nat (length s' + length p)])"
    using compose_secondary_value [OF K assms(3) s'' short, of t] assms(5)
    by (simp add: add.commute)
  have lt: "length tag \<le> 8"
    using assms(5) by (cases t) (simp_all add: length_encode_tag)
  have fits: "length (s' @ p @ tag @ [of_nat (length s') :: byte, of_nat (length s' + length p)])
             \<le> MAX_KEY_SIZE E"
    using K ls lt by simp
  have u1: "unat (of_nat (length s') :: byte) = length s'"
    using short1 by (simp add: unat_of_nat)
  have u2: "unat (of_nat (length s' + length p) :: byte) = length s' + length p"
    using short by (simp add: unat_of_nat del: of_nat_add)
  have viol: "\<forall>sec prim tg.
               \<not> (length sec < 255 \<and> length sec + length prim < 255
                  \<and> length sec + length prim + length tg + 2 \<le> MAX_KEY_SIZE E)
               \<longrightarrow> mangle_secondary E sec prim tg = Inl Fatal"
    by (simp add: mangle_secondary_def Let_def)
  from ts short1 short c fits u1 u2 viol show ?thesis by blast
qed

theorem mangle_secondary_guarantees_witness:
  "MAX_PRIMARY_KEY_SIZE test_externals + 10 \<le> MAX_KEY_SIZE test_externals
   \<and> MAX_KEY_SIZE test_externals \<le> 264
   \<and> length (str ''pk'') \<le> MAX_PRIMARY_KEY_SIZE test_externals
   \<and> trunc_size test_externals (length (str ''pk'')) = 238
   \<and> compose_secondary test_externals (replicate 300 0x41) (str ''pk'') None
       = Inr (replicate 238 0x41 @ str ''pk'' @ [238, 240])
   \<and> mangle_secondary test_externals (replicate 255 0x41) (str ''pk'') [] = Inl Fatal"
proof -
  have k: "MAX_PRIMARY_KEY_SIZE test_externals + 10 \<le> MAX_KEY_SIZE test_externals"
    by (simp add: test_externals_sizes)
  have k2: "MAX_KEY_SIZE test_externals \<le> 264"
    by (simp add: test_externals_sizes)
  have p: "length (str ''pk'') \<le> MAX_PRIMARY_KEY_SIZE test_externals"
    by (simp add: test_externals_sizes str_def)
  have t: "trunc_size test_externals (length (str ''pk'')) = 238"
    using trunc_size_nowrap [of "length (str ''pk'')" test_externals]
    by (simp add: test_externals_sizes str_def)
  have s': "replicate 238 (0x41 :: byte)
              = take (trunc_size test_externals (length (str ''pk''))) (replicate 300 0x41)"
    by (simp add: t)
  have tg: "([] :: byte list) = (case None of Some n \<Rightarrow> encode_tag_num n | None \<Rightarrow> [])"
    by simp
  have c: "compose_secondary test_externals (replicate 300 0x41) (str ''pk'') None
       = Inr (replicate 238 0x41 @ str ''pk'' @ [238, 240])"
    using mangle_secondary_guarantees [OF k k2 p s' tg] by (simp add: str_def)
  have m: "mangle_secondary test_externals (replicate 255 0x41) (str ''pk'') [] = Inl Fatal"
    by (simp add: mangle_secondary_def)
  from k k2 p t c m show ?thesis by blast
qed

text \<open>
  C2 (as amended).  Under the same bounds on the constants, for a non-empty primary
  key of at most \<open>MAX_PRIMARY_KEY_SIZE\<close> bytes, \<open>parse_secondary\<close> of the composed
  key returns the secondary cut to \<open>trunc_size\<close>, the primary key and the tag.
\<close>

theorem parse_compose_secondary:
  assumes "MAX_PRIMARY_KEY_SIZE E + 10 \<le> MAX_KEY_SIZE E" and "MAX_KEY_SIZE E \<le> 264"
    and "length p \<le> MAX_PRIMARY_KEY_SIZE E" and "0 < length p"
  shows "\<exists>key. compose_secondary E s p t = Inr key
           \<and> parse_secondary key
               = Inr \<lparr>secondary = take (trunc_size E (length p)) s, primary = p, tag_num = t\<rparr>"
proof -
  define s' where "s' = take (trunc_size E (length p)) s"
  define tag where "tag = (case t of Some n \<Rightarrow> encode_tag_num n | None \<Rightarrow> [])"
  have K: "length p + 10 \<le> MAX_KEY_SIZE E" "MAX_KEY_SIZE E < 2 ^ 64"
    using assms(1-3) by simp_all
  have ts: "trunc_size E (length p) = MAX_KEY_SIZE E - length p - 8 - 2"
    using K by (rule trunc_size_nowrap)
  have s'': "s' = take (MAX_KEY_SIZE E - length p - 8 - 2) s"
    using s'_def ts by simp
  have "length s' \<le> MAX_KEY_SIZE E - length p - 10"
    using s'' by simp
  then have short: "length s' + length p < 255"
    using K assms(2) by linarith
  have c: "compose_secondary E s p t
             = Inr (s' @ p @ tag @ [of_nat (length s'), of_nat (length p) + of_nat (length s')])"
    using compose_secondary_value [OF K assms(3) s'' short, of t] tag_def by simp
  have tg: "tag = [] \<or> length tag = 8"
    using tag_def by (cases t) (simp_all add: length_encode_tag)
  have tn: "(if tag = [] then None else Some (decode_tag_num tag)) = t"
  proof (cases t)
    case None
    then show ?thesis by (simp add: tag_def)
  next
    case (Some n)
    have "encode_tag_num n \<noteq> []"
      using length_encode_tag [of n] by auto
    with Some show ?thesis by (simp add: tag_def decode_encode_tag)
  qed
  have "parse_secondary (s' @ p @ tag @ [of_nat (length s'), of_nat (length p) + of_nat (length s')])
         = Inr \<lparr>secondary = s', primary = p, tag_num = t\<rparr>"
    using parse_secondary_mangled [OF short assms(4) tg] tn by simp
  with c show ?thesis by (simp add: s'_def)
qed

theorem parse_compose_secondary_witness:
  "MAX_PRIMARY_KEY_SIZE test_externals + 10 \<le> MAX_KEY_SIZE test_externals
   \<and> MAX_KEY_SIZE test_externals \<le> 264
   \<and> length (str ''pk'') \<le> MAX_PRIMARY_KEY_SIZE test_externals
   \<and> 0 < length (str ''pk'')
   \<and> (\<exists>key. compose_secondary test_externals (str ''Sabc'') (str ''pk'') (Some 7) = Inr key
         \<and> parse_secondary key
             = Inr \<lparr>secondary = take (trunc_size test_externals (length (str ''pk''))) (str ''Sabc''),
                     primary = str ''pk'', tag_num = Some 7\<rparr>)"
proof -
  have k: "MAX_PRIMARY_KEY_SIZE test_externals + 10 \<le> MAX_KEY_SIZE test_externals"
    by (simp add: test_externals_sizes)
  have k2: "MAX_KEY_SIZE test_externals \<le> 264"
    by (simp add: test_externals_sizes)
  have p: "length (str ''pk'') \<le> MAX_PRIMARY_KEY_SIZE test_externals"
    by (simp add: test_externals_sizes str_def)
  have p0: "0 < length (str ''pk'')"
    by (simp add: str_def)
  from k k2 p p0 parse_compose_secondary [OF k k2 p p0, of "str ''Sabc''" "Some 7"]
  show ?thesis by blast
qed

text \<open>
  C2, as stated, fails for the empty primary key: the two offsets are equal and
  \<open>parse_secondary\<close> stops at \<open>guarantee(start_of_primary < start_of_tag)\<close>.
\<close>

theorem parse_compose_empty_primary_counterexample:
  "length ([] :: byte list) \<le> MAX_PRIMARY_KEY_SIZE test_externals
   \<and> compose_secondary test_externals (str ''S'') [] None = Inr [0x53, 1, 1]
   \<and> parse_secondary [0x53, 1, 1] = Inl Fatal"
proof -
  have t: "trunc_size test_externals 0 = 240"
    using trunc_size_nowrap [of 0 test_externals] by (simp add: test_externals_sizes)
  have "compose_secondary test_externals (str ''S'') [] None = Inr [0x53, 1, 1]"
    by (simp add: compose_secondary_def mangle_secondary_def t str_def test_externals_sizes)
  moreover have "parse_secondary [0x53, 1, 1] = Inl Fatal"
    by (simp add: parse_secondary_def)
  ultimately show ?thesis by simp
qed

subsection \<open>UTF-8 validation in the bridges\<close>

lemma fail_if_invalid_old:
  "reql_version \<noteq> v1_16_is_latest \<Longrightarrow> fail_if_invalid E reql_version s = Inr ()"
  by (cases reql_version) (simp_all add: fail_if_invalid_def)

lemma json_valid:
  "json_to_datum E json lim reql_version = Inr d \<Longrightarrow> reql_version = v1_16_is_latest
     \<Longrightarrow> \<forall>s \<in> set (json_strings json). utf8_is_valid E s"
  "json_array_items E items lim reql_version array = Inr ds \<Longrightarrow> reql_version = v1_16_is_latest
     \<Longrightarrow> \<forall>j \<in> set items. \<forall>s \<in> set (json_strings j). utf8_is_valid E s"
  "json_object_items E nitems lim reql_version builder = Inr m \<Longrightarrow> reql_version = v1_16_is_latest
     \<Longrightarrow> \<forall>item \<in> set nitems. utf8_is_valid E (c_str (fst item))
           \<and> (\<forall>s \<in> set (json_strings (snd item)). utf8_is_valid E s)"
proof (induction E json lim reql_version and E items lim reql_version array
         and E nitems lim reql_version builder
       arbitrary: d and ds and m rule: json_to_datum_json_array_items_json_object_items.induct)
  case (1 E json lim reql_version)
  then show ?case
    by (cases json)
       (auto simp: json_to_datum.simps(1) fail_if_invalid_def split: sum.splits if_splits)
next
  case (2 E lim reql_version array)
  then show ?case by simp
next
  case (3 E item items lim reql_version array)
  then show ?case by (auto split: sum.splits)
next
  case (4 E lim reql_version builder)
  then show ?case by simp
next
  case (5 E item items lim reql_version builder)
  note p = "5.prems"(1) and ver = "5.prems"(2)
  from p have v: "fail_if_invalid E reql_version (c_str (fst item)) = Inr ()"
    by (simp split: sum.splits)
  from p v obtain d where
    j: "json_to_datum E (snd item) lim reql_version = Inr d"
    by (cases "json_to_datum E (snd item) lim reql_version") simp_all
  from p v j obtain b1 where
    a: "object_builder_add builder (c_str (fst item)) d = Inr (b1, False)"
    and r: "json_object_items E items lim reql_version b1 = Inr m"
    by (cases "object_builder_add builder (c_str (fst item)) d")
       (auto split: if_splits)
  have "utf8_is_valid E (c_str (fst item))"
    using v ver by (simp add: fail_if_invalid_def split: if_splits)
  moreover have "\<forall>s \<in> set (json_strings (snd item)). utf8_is_valid E s"
    using "5.IH"(1) [OF v j ver] .
  moreover have "\<forall>item \<in> set items. utf8_is_valid E (c_str (fst item))
           \<and> (\<forall>s \<in> set (json_strings (snd item)). utf8_is_valid E s)"
    using "5.IH"(2) [OF v j a refl _ r ver] by simp
  ultimately show ?case by simp
qed

lemma protobuf_valid:
  "protobuf_to_datum E pb lim reql_version = Inr d \<Longrightarrow> reql_version = v1_16_is_latest
     \<Longrightarrow> \<forall>s \<in> set (protobuf_strings pb). utf8_is_valid E s"
  "protobuf_array_items E items lim reql_version out = Inr out' \<Longrightarrow> reql_version = v1_16_is_latest
     \<Longrightarrow> \<forall>j \<in> set items. \<forall>s \<in> set (protobuf_strings j). utf8_is_valid E s"
  "protobuf_object_items E nitems lim reql_version m = Inr m' \<Longrightarrow> reql_version = v1_16_is_latest
     \<Longrightarrow> \<forall>ap \<in> set nitems. utf8_is_valid E (fst ap)
           \<and> (\<forall>s \<in> set (protobuf_strings (snd ap)). utf8_is_valid E s)"
proof (induction E pb lim reql_version and E items lim reql_version out
         and E nitems lim reql_version m
       arbitrary: d and out' and m'
       rule: protobuf_to_datum_protobuf_array_items_protobuf_object_items.induct)
  case (1 E pb lim reql_version)
  then show ?case
    by (cases pb)
       (auto simp: protobuf_to_datum.simps(1) fail_if_invalid_def
             split: sum.splits if_splits)
next
  case (2 E lim reql_version out)
  then show ?case by simp
next
  case (3 E item items lim reql_version out)
  then show ?case by (auto split: sum.splits)
next
  case (4 E lim reql_version m)
  then show ?case by simp
next
  case (5 E ap items lim reql_version m)
  note p = "5.prems"(1) and ver = "5.prems"(2)
  from p have c: "check_str_validity (fst ap) = Inr ()"
    by (simp split: sum.splits)
  from p c have v: "fail_if_invalid E reql_version (fst ap) = Inr ()"
    by (simp split: sum.splits)
  from p c v obtain d where
    j: "protobuf_to_datum E (snd ap) lim reql_version = Inr d"
    by (cases "protobuf_to_datum E (snd ap) lim reql_version") simp_all
  from p c v j obtain m1 where
    a: "map_insert m (fst ap) d = (m1, True)"
    and r: "protobuf_object_items E items lim reql_version m1 = Inr m'"
    by (cases "map_insert m (fst ap) d") (auto split: if_splits)
  have "utf8_is_valid E (fst ap)"
    using v ver by (simp add: fail_if_invalid_def split: if_splits)
  moreover have "\<forall>s \<in> set (protobuf_strings (snd ap)). utf8_is_valid E s"
    using "5.IH"(1) [OF c v j ver] .
  moreover have "\<forall>ap \<in> set items. utf8_is_valid E (fst ap)
           \<and> (\<forall>s \<in> set (protobuf_strings (snd ap)). utf8_is_valid E s)"
    using "5.IH"(2) [OF c v j a [symmetric] _ r ver] by simp
  ultimately show ?case by simp
qed

lemma sanitize_ignores_validator:
  "maybe_sanitize_ptype (E\<lparr>utf8_is_valid := f\<rparr>) d pts = maybe_sanitize_ptype E d pts"
  by (simp add: maybe_sanitize_ptype_def cong: sum.case_cong datum.case_cong if_cong)

lemma json_no_validation:
  "reql_version \<noteq> v1_16_is_latest \<Longrightarrow>
     json_to_datum (E\<lparr>utf8_is_valid := f\<rparr>) json lim reql_version
       = json_to_datum E json lim reql_version"
  "reql_version \<noteq> v1_16_is_latest \<Longrightarrow>
     json_array_items (E\<lparr>utf8_is_valid := f\<rparr>) items lim reql_version array
       = json_array_items E items lim reql_version array"
  "reql_version \<noteq> v1_16_is_latest \<Longrightarrow>
     json_object_items (E\<lparr>utf8_is_valid := f\<rparr>) nitems lim reql_version builder
       = json_object_items E nitems lim reql_version builder"
proof (induction E json lim reql_version and E items lim reql_version array
         and E nitems lim reql_version builder
       rule: json_to_datum_json_array_items_json_object_items.induct)
  case (1 E json lim reql_version)
  then show ?case
    by (cases json)
       (simp_all add: json_to_datum.simps(1) fail_if_invalid_old
          object_builder_to_datum_pts_def datum_object_def
          sanitize_ignores_validator cong: sum.case_cong)
next
  case (2 E lim reql_version array)
  then show ?case by simp
next
  case (3 E item items lim reql_version array)
  then show ?case by (simp split: sum.splits)
next
  case (4 E lim reql_version builder)
  then show ?case by simp
next
  case (5 E item items lim reql_version builder)
  then show ?case
    by (simp add: fail_if_invalid_old split: sum.splits prod.splits)
qed

lemma protobuf_no_validation:
  "reql_version \<noteq> v1_16_is_latest \<Longrightarrow>
     protobuf_to_datum (E\<lparr>utf8_is_valid := f\<rparr>) pb lim reql_version
       = protobuf_to_datum E pb lim reql_version"
  "reql_version \<noteq> v1_16_is_latest \<Longrightarrow>
     protobuf_array_items (E\<lparr>utf8_is_valid := f\<rparr>) items lim reql_version out
       = protobuf_array_items E items lim reql_version out"
  "reql_version \<noteq> v1_16_is_latest \<Longrightarrow>
     protobuf_object_items (E\<lparr>utf8_is_valid := f\<rparr>) nitems lim reql_version m
       = protobuf_object_items E nitems lim reql_version m"
proof (induction E pb lim reql_version and E items lim reql_version out
         and E nitems lim reql_version m
       rule: protobuf_to_datum_protobuf_array_items_protobuf_object_items.induct)
  case (1 E pb lim reql_version)
  then show ?case
    by (cases pb)
       (simp_all add: fail_if_invalid_old datum_object_def json_no_validation
          sanitize_ignores_validator protobuf_to_datum.simps(1)
          cong: sum.case_cong option.case_cong)
next
  case (2 E lim reql_version out)
  then show ?case by simp
next
  case (3 E item items lim reql_version out)
  then show ?case by (simp split: sum.splits)
next
  case (4 E lim reql_version m)
  then show ?case by simp
next
  case (5 E ap items lim reql_version m)
  then show ?case
    by (simp add: fail_if_invalid_old split: sum.splits prod.splits)
qed

text \<open>
  C3 (as amended).  Under v1_16_is_latest a tree that the JSON or the protobuf
  bridge turns into a datum has only valid UTF-8 in its strings and keys, and a
  string that is not valid is rejected with GENERIC.  Under v1_13 and v1_14
  \<open>fail_if_invalid\<close> accepts every string and the result of either bridge does
  not depend on the validator.  The string constructor never validates UTF-8: it
  only rejects a NUL byte.
\<close>

theorem utf8_validation_latest_only:
  "(json_to_datum E json lim v1_16_is_latest = Inr d
      \<longrightarrow> (\<forall>s \<in> set (json_strings json). utf8_is_valid E s))
   \<and> (protobuf_to_datum E pb lim v1_16_is_latest = Inr d'
      \<longrightarrow> (\<forall>s \<in> set (protobuf_strings pb). utf8_is_valid E s))
   \<and> (\<not> utf8_is_valid E (c_str s)
      \<longrightarrow> json_to_datum E (cJSON_String s) lim v1_16_is_latest = Inl (Exc GENERIC))
   \<and> (\<not> utf8_is_valid E s
      \<longrightarrow> protobuf_to_datum E (Datum_R_STR s) lim v1_16_is_latest = Inl (Exc GENERIC))
   \<and> (reql_version \<noteq> v1_16_is_latest
      \<longrightarrow> fail_if_invalid E reql_version s = Inr ()
        \<and> json_to_datum (E\<lparr>utf8_is_valid := f\<rparr>) json lim reql_version
            = json_to_datum E json lim reql_version
        \<and> protobuf_to_datum (E\<lparr>utf8_is_valid := f\<rparr>) pb lim reql_version
            = protobuf_to_datum E pb lim reql_version)
   \<and> datum_string s = (if 0 \<in> set s then Inl (Exc GENERIC) else Inr (DStr s))"
proof -
  have a: "json_to_datum E json lim v1_16_is_latest = Inr d
      \<longrightarrow> (\<forall>s \<in> set (json_strings json). utf8_is_valid E s)"
    using json_valid(1) [of E json lim v1_16_is_latest d] by simp
  have b: "protobuf_to_datum E pb lim v1_16_is_latest = Inr d'
      \<longrightarrow> (\<forall>s \<in> set (protobuf_strings pb). utf8_is_valid E s)"
    using protobuf_valid(1) [of E pb lim v1_16_is_latest d'] by simp
  have c: "\<not> utf8_is_valid E (c_str s)
      \<longrightarrow> json_to_datum E (cJSON_String s) lim v1_16_is_latest = Inl (Exc GENERIC)"
    by (simp add: json_to_datum.simps(1) fail_if_invalid_def)
  have d: "\<not> utf8_is_valid E s
      \<longrightarrow> protobuf_to_datum E (Datum_R_STR s) lim v1_16_is_latest = Inl (Exc GENERIC)"
    by (simp add: fail_if_invalid_def protobuf_to_datum.simps(1))
  have e: "reql_version \<noteq> v1_16_is_latest
      \<longrightarrow> fail_if_invalid E reql_version s = Inr ()
        \<and> json_to_datum (E\<lparr>utf8_is_valid := f\<rparr>) json lim reql_version
            = json_to_datum E json lim reql_version
        \<and> protobuf_to_datum (E\<lparr>utf8_is_valid := f\<rparr>) pb lim reql_version
            = protobuf_to_datum E pb lim reql_version"
  proof (intro impI conjI)
    assume v: "reql_version \<noteq> v1_16_is_latest"
    show "fail_if_invalid E reql_version s = Inr ()"
      using v by (rule fail_if_invalid_old)
    show "json_to_datum (E\<lparr>utf8_is_valid := f\<rparr>) json lim reql_version
            = json_to_datum E json lim reql_version"
      using v by (rule json_no_validation(1))
    show "protobuf_to_datum (E\<lparr>utf8_is_valid := f\<rparr>) pb lim reql_version
            = protobuf_to_datum E pb lim reql_version"
      using v by (rule protobuf_no_validation(1))
  qed
  have g: "datum_string s = (if 0 \<in> set s then Inl (Exc GENERIC) else Inr (DStr s))"
    by (simp add: datum_string_def check_str_validity_def)
  show ?thesis
    apply (intro conjI)
         apply (rule a)
        apply (rule b)
       apply (rule c)
      apply (rule d)
     apply (rule e)
    apply (rule g)
    done
qed

lemma test_externals_utf8: "utf8_is_valid test_externals = utf8_wf"
  by (simp add: test_externals_def)

theorem utf8_validation_latest_only_witness:
  "\<not> utf8_is_valid test_externals (c_str [0xFF])
   \<and> json_to_datum test_externals (cJSON_String [0xFF]) \<lparr>array_size_limit = 10\<rparr> v1_16_is_latest
       = Inl (Exc GENERIC)
   \<and> v1_14 \<noteq> v1_16_is_latest
   \<and> fail_if_invalid test_externals v1_14 [0xFF] = Inr ()"
  using utf8_validation_latest_only
    [of test_externals "cJSON_String [0xFF]" "\<lparr>array_size_limit = 10\<rparr>" DNull
        "Datum_R_STR [0xFF]" DNull "[0xFF]" v1_14 utf8_wf]
  by (simp add: test_externals_utf8 c_str_def)

text \<open>
  C3, as stated, fails under v1_14: the byte \<open>FF\<close> is not valid UTF-8, and both
  bridges and the string constructor accept it.
\<close>

theorem utf8_validation_v1_14_counterexample:
  "\<not> utf8_is_valid test_externals [0xFF]
   \<and> json_to_datum test_externals (cJSON_String [0xFF]) \<lparr>array_size_limit = 10\<rparr> v1_14
       = Inr (DStr [0xFF])
   \<and> protobuf_to_datum test_externals (Datum_R_STR [0xFF]) \<lparr>array_size_limit = 10\<rparr> v1_14
       = Inr (DStr [0xFF])
   \<and> datum_string [0xFF] = Inr (DStr [0xFF])"
proof -
  have a: "\<not> utf8_is_valid test_externals [0xFF]"
    by (simp add: test_externals_utf8)
  have b: "json_to_datum test_externals (cJSON_String [0xFF]) \<lparr>array_size_limit = 10\<rparr> v1_14
       = Inr (DStr [0xFF])"
    by (simp add: json_to_datum.simps(1) c_str_def fail_if_invalid_def)
  have c: "datum_string [0xFF] = Inr (DStr [0xFF])"
    by (simp add: datum_string_def check_str_validity_def)
  have d: "protobuf_to_datum test_externals (Datum_R_STR [0xFF]) \<lparr>array_size_limit = 10\<rparr> v1_14
       = Inr (DStr [0xFF])"
    by (simp add: protobuf_to_datum.simps(1) fail_if_invalid_def c)
  from a b c d show ?thesis by simp
qed

subsection \<open>Equality and ranges\<close>










subsection \<open>Sorted maps, field lookup and the literal law\<close>

lemma byte_cmp_order:
  "byte_cmp a b = (if a < b then - 1 else if a = b then 0 else 1)"
  by (induction a b rule: byte_cmp.induct) auto

lemma byte_cmp_neg: "(byte_cmp a b < 0) = (a < b)"
  by (simp add: byte_cmp_order)

lemma byte_cmp_zero: "(byte_cmp a b = 0) = (a = b)"
  by (simp add: byte_cmp_order)

lemma sorted_keys_Cons:
  "sorted_keys ((k, v) # m) = ((\<forall>p \<in> set m. k < fst p) \<and> sorted_keys m)"
  by (auto simp: sorted_keys_def)

lemma map_insert_subset: "set (fst (map_insert m k v)) \<subseteq> insert (k, v) (set m)"
  by (induction m k v rule: map_insert.induct) (auto split: prod.splits)

lemma map_insert_sorted: "sorted_keys m \<Longrightarrow> sorted_keys (fst (map_insert m k v))"
proof (induction m k v rule: map_insert.induct)
  case (1 k v)
  then show ?case by (simp add: sorted_keys_def)
next
  case (2 k' v' m k v)
  show ?case
  proof (cases "k < k'")
    case True
    with 2 show ?thesis by (auto simp: byte_cmp_neg sorted_keys_Cons)
  next
    case False
    show ?thesis
    proof (cases "k' < k")
      case True
      obtain m' r where mi: "map_insert m k v = (m', r)" by (cases "map_insert m k v")
      have sub: "set m' \<subseteq> insert (k, v) (set m)"
        using map_insert_subset [of m k v] mi by simp
      have "sorted_keys m'"
        using 2 False True mi by (simp add: byte_cmp_neg sorted_keys_Cons)
      moreover have "\<forall>p \<in> set m'. k' < fst p"
      proof
        fix p assume "p \<in> set m'"
        with sub have "p = (k, v) \<or> p \<in> set m" by auto
        then show "k' < fst p"
          using True 2(2) by (auto simp: sorted_keys_Cons)
      qed
      ultimately show ?thesis
        using False True mi by (simp add: byte_cmp_neg sorted_keys_Cons)
    next
      case False
      with \<open>\<not> k < k'\<close> 2 show ?thesis by (simp add: byte_cmp_neg)
    qed
  qed
qed

lemma insert_pairs_sorted: "sorted_keys m \<Longrightarrow> sorted_keys (insert_pairs m ps)"
  by (induction m ps rule: insert_pairs.induct) (simp_all add: map_insert_sorted)

lemma insert_pairs_subset: "set (insert_pairs m ps) \<subseteq> set m \<union> set ps"
proof (induction m ps rule: insert_pairs.induct)
  case (1 m)
  then show ?case by simp
next
  case (2 m k v ps)
  then show ?case using map_insert_subset [of m k v] by auto
qed

lemma map_assign_subset: "set (map_assign m k v) \<subseteq> insert (k, v) (set m)"
proof (induction m k v rule: map_assign.induct)
  case (1 k v)
  then show ?case by simp
next
  case (2 k' v' m k v)
  have "\<not> k < k' \<Longrightarrow> \<not> k' < k \<Longrightarrow> k' = k" by simp
  with 2 show ?case by (auto simp: byte_cmp_neg)
qed

lemma map_assign_sorted: "sorted_keys m \<Longrightarrow> sorted_keys (map_assign m k v)"
proof (induction m k v rule: map_assign.induct)
  case (1 k v)
  then show ?case by (simp add: sorted_keys_def)
next
  case (2 k' v' m k v)
  show ?case
  proof (cases "k < k'")
    case True
    with 2 show ?thesis by (auto simp: byte_cmp_neg sorted_keys_Cons)
  next
    case False
    show ?thesis
    proof (cases "k' < k")
      case True
      have "\<forall>p \<in> set (map_assign m k v). k' < fst p"
      proof
        fix p assume "p \<in> set (map_assign m k v)"
        with map_assign_subset [of m k v] have "p = (k, v) \<or> p \<in> set m" by auto
        then show "k' < fst p"
          using True 2(2) by (auto simp: sorted_keys_Cons)
      qed
      then show ?thesis
        using 2 False True by (simp add: byte_cmp_neg sorted_keys_Cons)
    next
      case False
      with \<open>\<not> k < k'\<close> 2 show ?thesis by (simp add: byte_cmp_neg sorted_keys_Cons)
    qed
  qed
qed

lemma map_assign_member: "(k, v) \<in> set (map_assign m k v)"
proof (induction m k v rule: map_assign.induct)
  case (1 k v)
  then show ?case by simp
next
  case (2 k' v' m k v)
  have "\<not> k < k' \<Longrightarrow> \<not> k' < k \<Longrightarrow> k' = k" by simp
  with 2 show ?case by (auto simp: byte_cmp_neg)
qed

lemma map_erase_subset: "set (fst (map_erase m k)) \<subseteq> set m"
  by (induction m k rule: map_erase.induct) (auto split: prod.splits)

lemma map_erase_sorted: "sorted_keys m \<Longrightarrow> sorted_keys (fst (map_erase m k))"
proof (induction m k rule: map_erase.induct)
  case (1 k)
  then show ?case by simp
next
  case (2 k' v' m k)
  show ?case
  proof (cases "k < k'")
    case True
    with 2 show ?thesis by (simp add: byte_cmp_neg)
  next
    case False
    show ?thesis
    proof (cases "k' < k")
      case True
      obtain m' n where me: "map_erase m k = (m', n)" by (cases "map_erase m k")
      have "set m' \<subseteq> set m" using map_erase_subset [of m k] me by simp
      then have "\<forall>p \<in> set m'. k' < fst p"
        using 2(2) by (auto simp: sorted_keys_Cons)
      moreover have "sorted_keys m'"
        using 2 False True me by (simp add: byte_cmp_neg sorted_keys_Cons)
      ultimately show ?thesis
        using False True me by (simp add: byte_cmp_neg sorted_keys_Cons)
    next
      case False
      with \<open>\<not> k < k'\<close> 2 show ?thesis by (simp add: byte_cmp_neg sorted_keys_Cons)
    qed
  qed
qed

lemma map_erase_absent: "sorted_keys m \<Longrightarrow> k \<notin> fst ` set (fst (map_erase m k))"
proof (induction m k rule: map_erase.induct)
  case (1 k)
  then show ?case by simp
next
  case (2 k' v' m k)
  show ?case
  proof (cases "k < k'")
    case True
    then have "\<forall>p \<in> set ((k', v') # m). k < fst p"
      using 2(2) by (auto simp: sorted_keys_Cons)
    then have "k \<notin> fst ` set ((k', v') # m)" by auto
    with True show ?thesis by (simp add: byte_cmp_neg)
  next
    case False
    show ?thesis
    proof (cases "k' < k")
      case True
      obtain m' n where me: "map_erase m k = (m', n)" by (cases "map_erase m k")
      have "k \<notin> fst ` set m'"
        using 2 False True me by (simp add: byte_cmp_neg sorted_keys_Cons)
      with False True me show ?thesis by (auto simp: byte_cmp_neg)
    next
      case False
      with \<open>\<not> k < k'\<close> have "k' = k" by simp
      then have "\<forall>p \<in> set m. k < fst p"
        using 2(2) by (auto simp: sorted_keys_Cons)
      then have "k \<notin> fst ` set m" by auto
      with False \<open>\<not> k < k'\<close> show ?thesis by (simp add: byte_cmp_neg)
    qed
  qed
qed

lemma sorted_keys_distinct: "sorted_keys m \<Longrightarrow> distinct (map fst m)"
  by (simp add: sorted_keys_def strict_sorted_iff)

lemma sorted_keys_nth_mono:
  "sorted_keys m \<Longrightarrow> i < j \<Longrightarrow> j < length m \<Longrightarrow> fst (m ! i) < fst (m ! j)"
  using sorted_wrt_nth_less [of "(<)" "map fst m" i j] by (simp add: sorted_keys_def)

lemma get_field_search_sorted:
  assumes "sorted_keys ps" and "range_end \<le> length ps"
    and "\<forall>i < range_beg. fst (ps ! i) < key"
    and "\<forall>i. range_end \<le> i \<and> i < length ps \<longrightarrow> key < fst (ps ! i)"
  shows "get_field_search ps key range_beg range_end = Inr (map_of ps key)"
  using assms
proof (induction ps key range_beg range_end rule: get_field_search.induct)
  case (1 ps key range_beg range_end)
  show ?case
  proof (cases "range_beg < range_end")
    case False
    have "key \<notin> fst ` set ps"
    proof
      assume "key \<in> fst ` set ps"
      then obtain i where i: "i < length ps" "fst (ps ! i) = key"
        by (auto simp: in_set_conv_nth)
      show False
      proof (cases "i < range_beg")
        case True
        with "1.prems"(3) i show False by auto
      next
        case False
        with \<open>\<not> range_beg < range_end\<close> have "range_end \<le> i" by simp
        with "1.prems"(4) i show False by auto
      qed
    qed
    then have "map_of ps key = None" by (simp add: map_of_eq_None_iff)
    with False show ?thesis by (subst get_field_search.simps) simp
  next
    case True
    define center where "center = range_beg + (range_end - range_beg) div 2"
    have c: "range_beg \<le> center" "center < range_end" "center < length ps"
      using True "1.prems"(2) by (simp_all add: center_def)
    show ?thesis
    proof (cases "key = fst (ps ! center)")
      case True
      have "(fst (ps ! center), snd (ps ! center)) \<in> set ps"
        using c(3) by simp
      then have "map_of ps key = Some (snd (ps ! center))"
        using True sorted_keys_distinct [OF "1.prems"(1)] by simp
      with True \<open>range_beg < range_end\<close> c show ?thesis
        by (subst get_field_search.simps) (simp add: center_def [symmetric] byte_cmp_zero)
    next
      case False
      show ?thesis
      proof (cases "key < fst (ps ! center)")
        case True
        have hi: "\<forall>i. center \<le> i \<and> i < length ps \<longrightarrow> key < fst (ps ! i)"
        proof (intro allI impI)
          fix i assume i: "center \<le> i \<and> i < length ps"
          show "key < fst (ps ! i)"
          proof (cases "i = center")
            case True
            with \<open>key < fst (ps ! center)\<close> show ?thesis by simp
          next
            case False
            with i have "fst (ps ! center) < fst (ps ! i)"
              using sorted_keys_nth_mono [OF "1.prems"(1), of center i] by simp
            with \<open>key < fst (ps ! center)\<close> show ?thesis by simp
          qed
        qed
        have "get_field_search ps key range_beg center = Inr (map_of ps key)"
          using "1.IH"(1) [OF \<open>range_beg < range_end\<close> center_def c(3) refl _ _
                             "1.prems"(1) _ "1.prems"(3) hi]
            True \<open>key \<noteq> fst (ps ! center)\<close> c
          by (simp add: byte_cmp_neg byte_cmp_zero center_def)
        with True \<open>key \<noteq> fst (ps ! center)\<close> \<open>range_beg < range_end\<close> c show ?thesis
          by (subst get_field_search.simps)
             (simp add: center_def [symmetric] byte_cmp_neg byte_cmp_zero)
      next
        case False
        with \<open>key \<noteq> fst (ps ! center)\<close> have gt: "fst (ps ! center) < key" by simp
        have lo: "\<forall>i < center + 1. fst (ps ! i) < key"
        proof (intro allI impI)
          fix i assume i: "i < center + 1"
          show "fst (ps ! i) < key"
          proof (cases "i = center")
            case True
            with gt show ?thesis by simp
          next
            case False
            with i have "fst (ps ! i) < fst (ps ! center)"
              using sorted_keys_nth_mono [OF "1.prems"(1), of i center] c(3) by simp
            with gt show ?thesis by simp
          qed
        qed
        have "get_field_search ps key (center + 1) range_end = Inr (map_of ps key)"
          using "1.IH"(2) [OF \<open>range_beg < range_end\<close> center_def c(3) refl _ _
                             "1.prems"(1,2) lo "1.prems"(4)]
            False \<open>key \<noteq> fst (ps ! center)\<close>
          by (simp add: byte_cmp_neg byte_cmp_zero center_def)
        with False \<open>key \<noteq> fst (ps ! center)\<close> \<open>range_beg < range_end\<close> c show ?thesis
          by (subst get_field_search.simps)
             (simp add: center_def [symmetric] byte_cmp_neg byte_cmp_zero)
      qed
    qed
  qed
qed

lemma is_ptype_of_scalar:
  "get_type d \<noteq> R_OBJECT \<Longrightarrow> is_ptype_of d literal_string = Inr False"
  by (cases d)
     (simp_all add: is_ptype_of_def is_ptype_def get_reql_type_def literal_string_def str_def)

lemma sanitize_empty_object: "object_builder_to_datum E [] = Inr (DObject [])"
  by (simp add: object_builder_to_datum_def datum_object_def maybe_sanitize_ptype_def
        is_ptype_def get_field_def has_def)

lemma drop_literals_free:
  "literal_free d \<Longrightarrow> drop_literals E d = Inr (d, False)"
  "list_all (\<lambda>pair. literal_free (snd pair)) rest \<Longrightarrow> \<not> ntc
     \<Longrightarrow> drop_literals_obj E visited rest ntc builder = Inr (False, builder)"
  "list_all literal_free elems \<Longrightarrow> \<not> ntc'
     \<Longrightarrow> drop_literals_arr E visited' elems ntc' abuilder = Inr (False, abuilder)"
proof (induction E d and E visited rest ntc builder and E visited' elems ntc' abuilder
       rule: drop_literals_drop_literals_obj_drop_literals_arr.induct)
  case (1 E d)
  show ?case
  proof (cases d)
    case (DObject ps)
    with "1.prems" have nl: "is_ptype_of d literal_string = Inr False"
      and all: "list_all (\<lambda>pair. literal_free (snd pair)) ps" by simp_all
    have "drop_literals_obj E [] ps False [] = Inr (False, [])"
      using "1.IH"(3) [OF nl _ DObject all] by simp
    with nl DObject show ?thesis
      by (simp add: drop_literals.simps(1) sanitize_empty_object)
  next
    case (DArray xs)
    have nl: "is_ptype_of d literal_string = Inr False"
      using DArray by (simp add: is_ptype_of_scalar)
    from "1.prems" DArray have all: "list_all literal_free xs" by simp
    have "drop_literals_arr E [] xs False (array_builder unlimited)
            = Inr (False, array_builder unlimited)"
      using "1.IH"(2) [OF nl _ DArray all] by simp
    with nl DArray show ?thesis
      by (simp add: drop_literals.simps(1))
  qed (simp_all add: drop_literals.simps(1) is_ptype_of_scalar)
next
  case (2 E visited ntc builder)
  then show ?case by simp
next
  case (3 E visited pair rest ntc builder)
  then show ?case by simp
next
  case (4 E visited ntc builder)
  then show ?case by simp
next
  case (5 E visited x rest ntc builder)
  then show ?case by simp
qed

lemma get_field_sorted:
  assumes "sorted_keys m"
  shows "get_field (DObject m) key throw_bool =
           (case map_of m key of
              Some v \<Rightarrow> Inr v
            | None \<Rightarrow> if throw_bool = THROW then Inl (Exc NON_EXISTENCE) else Inr DUninitialized)"
proof -
  have "get_field_search m key 0 (length m) = Inr (map_of m key)"
    using assms by (intro get_field_search_sorted) auto
  then show ?thesis by (simp add: get_field_def split: option.splits)
qed

lemma not_ptype_without_reql_type:
  assumes "sorted_keys m" and "reql_type_string \<notin> fst ` set m"
  shows "\<not> is_ptype (DObject m)"
proof -
  have "map_of m reql_type_string = None"
    using assms(2) by (simp add: map_of_eq_None_iff)
  then show ?thesis
    using get_field_sorted [OF assms(1), of reql_type_string NOTHROW]
    by (simp add: is_ptype_def has_def)
qed

lemma to_datum_plain:
  assumes "sorted_keys m" and "reql_type_string \<notin> fst ` set m"
  shows "object_builder_to_datum E m = Inr (DObject m)"
  using not_ptype_without_reql_type [OF assms]
  by (simp add: object_builder_to_datum_def datum_object_def maybe_sanitize_ptype_def)

lemma reql_type_lt_value: "reql_type_string < value_key"
  by (simp add: reql_type_string_def value_key_def str_def)

lemma literal_of_sorted: "sorted_keys [(reql_type_string, t), (value_key, v)]"
  by (simp add: sorted_keys_def reql_type_lt_value)

lemma literal_of_facts:
  "get_type (literal_of v) = R_OBJECT"
  "is_ptype_of (literal_of v) literal_string = Inr True"
  "get_field (literal_of v) value_key NOTHROW = Inr v"
proof -
  have ne: "value_key \<noteq> reql_type_string"
    using reql_type_lt_value by auto
  have ls: "literal_string \<noteq> []"
    by (simp add: literal_string_def str_def)
  show "get_type (literal_of v) = R_OBJECT" by (simp add: literal_of_def)
  have g: "get_field (literal_of v) reql_type_string NOTHROW = Inr (DStr literal_string)"
    by (simp add: literal_of_def get_field_sorted [OF literal_of_sorted])
  then have p: "is_ptype (literal_of v)"
    by (simp add: is_ptype_def has_def literal_of_def)
  have "get_reql_type (literal_of v) = Inr literal_string"
    using g p by (simp add: get_reql_type_def literal_of_def has_def)
  then show "is_ptype_of (literal_of v) literal_string = Inr True"
    using p ls by (simp add: is_ptype_of_def)
  show "get_field (literal_of v) value_key NOTHROW = Inr v"
    using ne by (simp add: literal_of_def get_field_sorted [OF literal_of_sorted])
qed

lemma literal_empty_facts:
  "get_type literal_empty = R_OBJECT"
  "is_ptype_of literal_empty literal_string = Inr True"
  "get_field literal_empty value_key NOTHROW = Inr DUninitialized"
proof -
  have ne: "value_key \<noteq> reql_type_string"
    using reql_type_lt_value by auto
  have ls: "literal_string \<noteq> []"
    by (simp add: literal_string_def str_def)
  have so: "sorted_keys [(reql_type_string, DStr literal_string)]"
    by (simp add: sorted_keys_def)
  show "get_type literal_empty = R_OBJECT" by (simp add: literal_empty_def)
  have g: "get_field literal_empty reql_type_string NOTHROW = Inr (DStr literal_string)"
    by (simp add: literal_empty_def get_field_sorted [OF so])
  then have p: "is_ptype literal_empty"
    by (simp add: is_ptype_def has_def literal_empty_def)
  have "get_reql_type literal_empty = Inr literal_string"
    using g p by (simp add: get_reql_type_def literal_empty_def has_def)
  then show "is_ptype_of literal_empty literal_string = Inr True"
    using p ls by (simp add: is_ptype_of_def)
  show "get_field literal_empty value_key NOTHROW = Inr DUninitialized"
    using ne by (simp add: literal_empty_def get_field_sorted [OF so])
qed

lemma merge_literal_value:
  assumes x: "reql_type_string \<notin> fst ` set xs"
    and k: "k \<noteq> reql_type_string" "0 \<notin> set k"
    and v: "has v" "literal_free v"
  shows "merge E (DObject xs) (DObject [(k, literal_of v)])
           = Inr (DObject (map_assign (insert_pairs [] xs) k v))"
    and "get_field (DObject (map_assign (insert_pairs [] xs) k v)) k NOTHROW = Inr v"
proof -
  define d where "d = insert_pairs [] xs"
  define d1 where "d1 = map_assign d k v"
  have sd: "sorted_keys d"
    unfolding d_def by (rule insert_pairs_sorted) (simp add: sorted_keys_def)
  have kd: "reql_type_string \<notin> fst ` set d"
    using insert_pairs_subset [of "[]" xs] x by (auto simp: d_def)
  have sd1: "sorted_keys d1"
    unfolding d1_def using sd by (rule map_assign_sorted)
  have kd1: "reql_type_string \<notin> fst ` set d1"
    using map_assign_subset [of d k v] kd k(1) by (auto simp: d1_def)
  have ow: "object_builder_overwrite d k v = Inr d1"
    using k(2) v(1) by (simp add: object_builder_overwrite_def check_str_validity_def d1_def)
  have dl: "drop_literals E v = Inr (v, False)"
    using v(2) by (rule drop_literals_free(1))
  have loop: "merge_loop E d [(k, literal_of v)] = Inr d1"
    using v(1) by (simp add: Let_def literal_of_facts dl ow)
  have td: "object_builder_to_datum E d1 = Inr (DObject d1)"
    using sd1 kd1 by (rule to_datum_plain)
  show "merge E (DObject xs) (DObject [(k, literal_of v)])
           = Inr (DObject (map_assign (insert_pairs [] xs) k v))"
    using loop td
    by (simp add: merge.simps(1) object_builder_from_def literal_of_def d_def d1_def)
  have "(k, v) \<in> set d1"
    unfolding d1_def by (rule map_assign_member)
  then have "map_of d1 k = Some v"
    using sorted_keys_distinct [OF sd1] by simp
  then show "get_field (DObject (map_assign (insert_pairs [] xs) k v)) k NOTHROW = Inr v"
    using get_field_sorted [OF sd1, of k NOTHROW] by (simp add: d1_def d_def)
qed

lemma merge_literal_delete:
  assumes x: "reql_type_string \<notin> fst ` set xs"
  shows "merge E (DObject xs) (DObject [(k, literal_empty)])
           = Inr (DObject (fst (map_erase (insert_pairs [] xs) k)))"
    and "get_field (DObject (fst (map_erase (insert_pairs [] xs) k))) k NOTHROW
           = Inr DUninitialized"
    and "get_field (DObject (fst (map_erase (insert_pairs [] xs) k))) k THROW
           = Inl (Exc NON_EXISTENCE)"
proof -
  define d where "d = insert_pairs [] xs"
  define d1 where "d1 = fst (map_erase d k)"
  have sd: "sorted_keys d"
    unfolding d_def by (rule insert_pairs_sorted) (simp add: sorted_keys_def)
  have kd: "reql_type_string \<notin> fst ` set d"
    using insert_pairs_subset [of "[]" xs] x by (auto simp: d_def)
  have sd1: "sorted_keys d1"
    unfolding d1_def using sd by (rule map_erase_sorted)
  have kd1: "reql_type_string \<notin> fst ` set d1"
    using map_erase_subset [of d k] kd by (auto simp: d1_def)
  have del: "fst (object_builder_delete_field d k) = d1"
    by (simp add: object_builder_delete_field_def d1_def split: prod.splits)
  have loop: "merge_loop E d [(k, literal_empty)] = Inr d1"
    by (simp add: Let_def literal_empty_facts has_def del)
  have td: "object_builder_to_datum E d1 = Inr (DObject d1)"
    using sd1 kd1 by (rule to_datum_plain)
  show "merge E (DObject xs) (DObject [(k, literal_empty)])
           = Inr (DObject (fst (map_erase (insert_pairs [] xs) k)))"
    using loop td
    by (simp add: merge.simps(1) object_builder_from_def literal_empty_def d_def d1_def)
  have "k \<notin> fst ` set d1"
    unfolding d1_def using sd by (rule map_erase_absent)
  then have "map_of d1 k = None"
    by (simp add: map_of_eq_None_iff)
  then show "get_field (DObject (fst (map_erase (insert_pairs [] xs) k))) k NOTHROW
           = Inr DUninitialized"
    and "get_field (DObject (fst (map_erase (insert_pairs [] xs) k))) k THROW
           = Inl (Exc NON_EXISTENCE)"
    using get_field_sorted [OF sd1, of k NOTHROW] get_field_sorted [OF sd1, of k THROW]
    by (simp_all add: d1_def d_def)
qed

text \<open>
  C4 (as amended).  Let \<open>x\<close> be an object without a \<open>$reql_type$\<close> field.  For a
  key \<open>k\<close> other than \<open>$reql_type$\<close> and free of NUL, and an initialised datum \<open>v\<close>
  that contains no literal, merging \<open>{k: $literal(v)}\<close> into \<open>x\<close> gives an object
  whose field \<open>k\<close> is \<open>v\<close>; merging \<open>{k: $literal()}\<close> gives an object in which
  \<open>k\<close> is absent.
\<close>

theorem merge_literal_law:
  assumes "reql_type_string \<notin> fst ` set xs"
  shows "(k \<noteq> reql_type_string \<and> 0 \<notin> set k \<and> has v \<and> literal_free v \<longrightarrow>
            (\<exists>r. merge E (DObject xs) (DObject [(k, literal_of v)]) = Inr r
                 \<and> get_field r k NOTHROW = Inr v))
         \<and> (\<exists>r. merge E (DObject xs) (DObject [(k, literal_empty)]) = Inr r
                 \<and> get_field r k NOTHROW = Inr DUninitialized
                 \<and> get_field r k THROW = Inl (Exc NON_EXISTENCE))"
proof (intro conjI impI)
  assume h: "k \<noteq> reql_type_string \<and> 0 \<notin> set k \<and> has v \<and> literal_free v"
  then show "\<exists>r. merge E (DObject xs) (DObject [(k, literal_of v)]) = Inr r
                 \<and> get_field r k NOTHROW = Inr v"
    using merge_literal_value(1) [OF assms, of k v E] merge_literal_value(2) [OF assms, of k v]
    by blast
next
  show "\<exists>r. merge E (DObject xs) (DObject [(k, literal_empty)]) = Inr r
                 \<and> get_field r k NOTHROW = Inr DUninitialized
                 \<and> get_field r k THROW = Inl (Exc NON_EXISTENCE)"
    using merge_literal_delete(1) [OF assms, of E k] merge_literal_delete(2,3) [OF assms, of k]
    by blast
qed

theorem merge_literal_law_witness:
  "reql_type_string \<notin> fst ` set [(str ''a'', DBool True), (str ''b'', DBool False)]
   \<and> str ''b'' \<noteq> reql_type_string \<and> 0 \<notin> set (str ''b'')
   \<and> has (DStr (str ''x'')) \<and> literal_free (DStr (str ''x''))
   \<and> (\<exists>r. merge test_externals (DObject [(str ''a'', DBool True), (str ''b'', DBool False)])
               (DObject [(str ''b'', literal_of (DStr (str ''x'')))]) = Inr r
          \<and> get_field r (str ''b'') NOTHROW = Inr (DStr (str ''x'')))
   \<and> (\<exists>r. merge test_externals (DObject [(str ''a'', DBool True), (str ''b'', DBool False)])
               (DObject [(str ''b'', literal_empty)]) = Inr r
          \<and> get_field r (str ''b'') NOTHROW = Inr DUninitialized)"
proof -
  have x: "reql_type_string \<notin> fst ` set [(str ''a'', DBool True), (str ''b'', DBool False)]"
    by (simp add: reql_type_string_def str_def)
  have k: "str ''b'' \<noteq> reql_type_string" "0 \<notin> set (str ''b'')"
    by (simp_all add: reql_type_string_def str_def)
  have v: "has (DStr (str ''x''))" "literal_free (DStr (str ''x''))"
    by (simp_all add: has_def)
  from merge_literal_law [OF x, where k = "str ''b''" and v = "DStr (str ''x'')"
                            and E = test_externals] x k v
  show ?thesis by blast
qed

text \<open>
  C4, as stated, fails in two ways.  When \<open>v\<close> is itself a literal the sanity
  check on nested literals stops \<open>merge\<close>; when \<open>x\<close> is the literal object without a
  value, the merged object is a stray LITERAL pseudotype and is rejected.
\<close>

theorem merge_literal_counterexample:
  "merge test_externals (DObject []) (DObject [(str ''a'', literal_of (literal_of DNull))])
     = Inl Fatal
   \<and> merge test_externals literal_empty (DObject [(str ''a'', literal_of DNull)])
     = Inl (Exc GENERIC)"
proof -
  have dn: "drop_literals test_externals DNull = Inr (DNull, False)"
    by (rule drop_literals_free(1)) simp
  have hn: "has DNull" "has (literal_of DNull)"
    by (simp_all add: has_def literal_of_def)
  have dl: "drop_literals test_externals (literal_of DNull) = Inr (DNull, True)"
    by (subst drop_literals.simps(1)) (simp add: literal_of_facts hn dn)
  have a: "merge test_externals (DObject [])
             (DObject [(str ''a'', literal_of (literal_of DNull))]) = Inl Fatal"
    by (simp add: merge.simps(1) object_builder_from_def Let_def literal_of_facts hn dl)
  have ow: "object_builder_overwrite [(reql_type_string, DStr literal_string)] (str ''a'') DNull
              = Inr [(reql_type_string, DStr literal_string), (str ''a'', DNull)]"
    by (simp add: object_builder_overwrite_def check_str_validity_def hn
          reql_type_string_def str_def)
  have so: "sorted_keys [(reql_type_string, DStr literal_string), (str ''a'', DNull)]"
    by (simp add: sorted_keys_def reql_type_string_def str_def)
  have g: "get_field (DObject [(reql_type_string, DStr literal_string), (str ''a'', DNull)])
             reql_type_string NOTHROW = Inr (DStr literal_string)"
    by (simp add: get_field_sorted [OF so])
  have td: "object_builder_to_datum test_externals
              [(reql_type_string, DStr literal_string), (str ''a'', DNull)] = Inl (Exc GENERIC)"
    using g
    by (simp add: object_builder_to_datum_def datum_object_def maybe_sanitize_ptype_def
          is_ptype_def has_def get_reql_type_def allowed_pts_default_def
          literal_string_def time_string_def str_def)
  have b: "merge test_externals literal_empty (DObject [(str ''a'', literal_of DNull)])
             = Inl (Exc GENERIC)"
    by (simp add: merge.simps(1) literal_empty_def object_builder_from_def Let_def
          literal_of_facts hn dn ow td)
  from a b show ?thesis by simp
qed

subsection \<open>Key order and value order\<close>

lemma hex_digits_step:
  "m = Suc j \<Longrightarrow> hex_digits m n = hex_digits j (n div 16) @ [hex_digit (n mod 16)]"
  by simp
lemma hex_digits_numeral:
  "hex_digits (numeral k) n = hex_digits (pred_numeral k) (n div 16) @ [hex_digit (n mod 16)]"
  by (rule hex_digits_step) (rule numeral_eq_Suc)
lemma hex16_neg_zero: "hex16 (NOT 0x8000000000000000) = str ''7fffffffffffffff''"
  by (simp add: hex16_def hex_digits_numeral hex_digit_def str_def)
lemma hex16_pos_zero: "hex16 (0 XOR push_bit 63 1) = str ''8000000000000000''"
  by (simp add: hex16_def hex_digits_numeral hex_digit_def str_def)
lemma num_key_neg_zero:
  "num_to_str_key E (DNum 0x8000000000000000) []
     = Inr (str ''N7fffffffffffffff#'' @ reconstructable_double E 0x8000000000000000)"
  using hex16_neg_zero by (simp add: num_to_str_key_def str_def)

lemma num_key_pos_zero:
  "num_to_str_key E (DNum 0) [] = Inr (str ''N8000000000000000#'' @ reconstructable_double E 0)"
  using hex16_pos_zero by (simp add: num_to_str_key_def str_def)

lemma zeros_compare_equal: "modern_cmp E (DNum 0x8000000000000000) (DNum 0) = Inr 0"
  by (simp add: modern_cmp.simps(1) compares_as_ptype_def is_ptype_def cmp_scalars_def
        as_num_def check_type_def derived_cmp_double_def double_order_def)

lemma zero_keys_ordered:
  "byte_cmp (str ''N7fffffffffffffff#'' @ r1) (str ''N8000000000000000#'' @ r2) = - 1"
  by (simp add: str_def)

text \<open>
  C1 at the two zeros.  Negative zero and positive zero are equal under
  \<open>modern_cmp\<close>, as IEEE-754 has them, but \<open>num_to_str_key\<close> mangles their bit
  patterns to \<open>7fffffffffffffff\<close> and \<open>8000000000000000\<close>, so the key of negative
  zero sorts strictly below the key of positive zero.
\<close>

theorem negative_zero_key_order:
  "modern_cmp E (DNum 0x8000000000000000) (DNum 0) = Inr 0
   \<and> num_to_str_key E (DNum 0x8000000000000000) []
       = Inr (str ''N7fffffffffffffff#'' @ reconstructable_double E 0x8000000000000000)
   \<and> num_to_str_key E (DNum 0) []
       = Inr (str ''N8000000000000000#'' @ reconstructable_double E 0)
   \<and> byte_cmp (str ''N7fffffffffffffff#'' @ reconstructable_double E 0x8000000000000000)
                (str ''N8000000000000000#'' @ reconstructable_double E 0) = - 1
   \<and> print_primary test_externals (DNum 0x8000000000000000) = Inr (str ''N7fffffffffffffff#'')
   \<and> print_primary test_externals (DNum 0) = Inr (str ''N8000000000000000#'')"
proof -
  have r: "reconstructable_double test_externals = (\<lambda>_. [])"
    by (simp add: test_externals_def)
  have a: "print_primary test_externals (DNum 0x8000000000000000)
             = Inr (str ''N7fffffffffffffff#'')"
    by (simp add: print_primary_def num_key_neg_zero r test_externals_sizes) (simp add: str_def)
  have b: "print_primary test_externals (DNum 0) = Inr (str ''N8000000000000000#'')"
    by (simp add: print_primary_def num_key_pos_zero r test_externals_sizes) (simp add: str_def)
  from zeros_compare_equal num_key_neg_zero num_key_pos_zero zero_keys_ordered a b
  show ?thesis by blast
qed

end
